theory Spec2Isabelle
  imports Complex_Main "HOL-Library.Log_Nat"
begin

section \<open>Dataset creation: normalisation, chunk alignment and persistence\<close>

text \<open>
  A shallow embedding of \<^verbatim>\<open>src/dataset/dataset_creation.py\<close>: the functions
  \<^verbatim>\<open>norm_sg\<close>, \<^verbatim>\<open>save_array\<close>, \<^verbatim>\<open>extract_chunk\<close> and the loop of
  \<^verbatim>\<open>create_tensor\<close>. Audio decoding, the MIDI parser, the mel transform and the
  decibel scaling are library calls: their results (the piano roll and the decibel
  spectrogram) are parameters of the model. The plotting calls guarded by
  \<^verbatim>\<open>debug_vis\<close> touch no array and no file and are left out.
\<close>

subsection \<open>Exceptions\<close>

text \<open>
  The exceptions that the modelled statements can raise. \<open>InvalidInputError\<close> is
  never raised by the source: it is the error kind of the specification, kept here so that
  a result can be compared with it.
\<close>

datatype py_error =
    ZeroDivisionError
  | OverflowError
  | ValueError
  | RuntimeError
  | IOError
  | InvalidInputError

subsection \<open>Rounding to a binary float\<close>

text \<open>
  A finite float is the rational it denotes. \<open>round_float t emin\<close> rounds a rational to
  the nearest number with \<open>t + 1\<close> significant bits and a spacing of at least
  \<open>2^emin\<close>, a tie going to the even significand.
\<close>

definition pow2 :: "int \<Rightarrow> rat" where
  "pow2 e = (if 0 \<le> e then 2 ^ nat e else 1 / 2 ^ nat (- e))"

text \<open>\<^verbatim>\<open>round(x)\<close> on a float: the nearest integer, a tie going to the even one.\<close>

definition py_round :: "rat \<Rightarrow> int" where
  "py_round x =
     (let f = \<lfloor>x\<rfloor>; d = x - of_int f
      in if d < 1 / 2 then f
         else if 1 / 2 < d then f + 1
         else if even f then f else f + 1)"

text \<open>The integer \<open>k\<close> with \<open>2^k \<le> x < 2^(k + 1)\<close>, for a positive \<open>x\<close>.\<close>

definition ilog2 :: "rat \<Rightarrow> int" where
  "ilog2 x = (if 1 \<le> x then bitlen \<lfloor>x\<rfloor> - 1 else - bitlen (\<lceil>1 / x\<rceil> - 1))"

definition round_float :: "nat \<Rightarrow> int \<Rightarrow> rat \<Rightarrow> rat" where
  "round_float t emin x =
     (if x = 0 then 0
      else let e = max (ilog2 \<bar>x\<bar> - int t) emin
           in of_int (py_round (x / pow2 e)) * pow2 e)"

subsection \<open>Array values\<close>

text \<open>
  An array element is an IEEE 754 binary32 value, as the elements of the spectrogram tensor
  are: a finite number, an infinity or NaN. A finite element is the rational it denotes.
  A difference or a quotient of finite elements is rounded to the nearest binary32 number,
  ties to even, and is an infinity when it rounds beyond the largest one. The rules for the
  special values are those of IEEE 754, with a zero divisor taken as \<open>+0\<close> (the only
  zero divisor of \<^verbatim>\<open>norm_sg\<close> is the difference of two equal numbers, which is
  \<open>+0\<close>).
\<close>

datatype fval = Fin rat | PInf | NInf | NaN

text \<open>
  binary32: 24 significant bits, the subnormal spacing \<open>2^-149\<close>, and the largest
  number \<open>2^128 - 2^104\<close>.
\<close>

definition fl32 :: "rat \<Rightarrow> rat" where
  "fl32 x = round_float 23 (- 149) x"

definition f32 :: "rat \<Rightarrow> fval" where
  "f32 x =
     (if 2 ^ 128 - 2 ^ 103 \<le> \<bar>x\<bar> then (if 0 < x then PInf else NInf) else Fin (fl32 x))"

fun is_finite :: "fval \<Rightarrow> bool" where
  "is_finite (Fin q) = True"
| "is_finite v = False"

fun fsub :: "fval \<Rightarrow> fval \<Rightarrow> fval" where
  "fsub NaN y = NaN"
| "fsub x NaN = NaN"
| "fsub PInf PInf = NaN"
| "fsub NInf NInf = NaN"
| "fsub PInf y = PInf"
| "fsub NInf y = NInf"
| "fsub (Fin a) PInf = NInf"
| "fsub (Fin a) NInf = PInf"
| "fsub (Fin a) (Fin b) = f32 (a - b)"

fun fdiv :: "fval \<Rightarrow> fval \<Rightarrow> fval" where
  "fdiv NaN y = NaN"
| "fdiv x NaN = NaN"
| "fdiv PInf (Fin b) = (if 0 \<le> b then PInf else NInf)"
| "fdiv NInf (Fin b) = (if 0 \<le> b then NInf else PInf)"
| "fdiv PInf y = NaN"
| "fdiv NInf y = NaN"
| "fdiv (Fin a) PInf = Fin 0"
| "fdiv (Fin a) NInf = Fin 0"
| "fdiv (Fin a) (Fin b) =
     (if b = 0 then (if a = 0 then NaN else if 0 < a then PInf else NInf)
      else f32 (a / b))"

text \<open>The order of the values that are not NaN.\<close>

fun fle :: "fval \<Rightarrow> fval \<Rightarrow> bool" where
  "fle NaN y = False"
| "fle x NaN = False"
| "fle NInf y = True"
| "fle x PInf = True"
| "fle PInf y = False"
| "fle x NInf = False"
| "fle (Fin a) (Fin b) = (a \<le> b)"

text \<open>The reductions \<^verbatim>\<open>min()\<close> and \<^verbatim>\<open>max()\<close> return NaN when an element is NaN.\<close>

definition fmin :: "fval \<Rightarrow> fval \<Rightarrow> fval" where
  "fmin x y = (if x = NaN \<or> y = NaN then NaN else if fle x y then x else y)"

definition fmax :: "fval \<Rightarrow> fval \<Rightarrow> fval" where
  "fmax x y = (if x = NaN \<or> y = NaN then NaN else if fle x y then y else x)"

subsection \<open>Two-dimensional arrays\<close>

text \<open>
  A 2-D array is its list of rows together with its number of columns, which an array
  with no row still has (\<^verbatim>\<open>shape = (len(rows), ncols)\<close>).
\<close>

record 'a ndarray =
  ncols :: nat
  rows :: "'a list list"

definition nrows :: "'a ndarray \<Rightarrow> nat" where
  "nrows a = length (rows a)"

definition wf_array :: "'a ndarray \<Rightarrow> bool" where
  "wf_array a = list_all (\<lambda>r. length r = ncols a) (rows a)"

definition elements :: "'a ndarray \<Rightarrow> 'a list" where
  "elements a = concat (rows a)"

text \<open>
  A slice bound of Python: a negative bound counts from the end, and every bound is
  clipped to the length.
\<close>

definition slice_bound :: "nat \<Rightarrow> int \<Rightarrow> nat" where
  "slice_bound n i = (if i < 0 then nat (max (i + int n) 0) else min (nat i) n)"

definition py_slice :: "'a list \<Rightarrow> int \<Rightarrow> int \<Rightarrow> 'a list" where
  "py_slice xs i j =
     (let a = slice_bound (length xs) i; b = slice_bound (length xs) j
      in take (b - a) (drop a xs))"

text \<open>\<^verbatim>\<open>a[:, i:j]\<close>\<close>

definition slice_cols :: "'a ndarray \<Rightarrow> int \<Rightarrow> int \<Rightarrow> 'a ndarray" where
  "slice_cols a i j =
     \<lparr>ncols = slice_bound (ncols a) j - slice_bound (ncols a) i,
      rows = map (\<lambda>r. py_slice r i j) (rows a)\<rparr>"

subsection \<open>The normaliser\<close>

definition array_min :: "fval ndarray \<Rightarrow> fval" where
  "array_min a = (case elements a of x # xs \<Rightarrow> foldl fmin x xs)"

definition array_max :: "fval ndarray \<Rightarrow> fval" where
  "array_max a = (case elements a of x # xs \<Rightarrow> foldl fmax x xs)"

text \<open>
  \<^verbatim>\<open>s_db = (spectrogram - spectrogram.min()) / (spectrogram.max() - spectrogram.min())\<close>

  The argument is a tensor; its \<^verbatim>\<open>min()\<close> raises \<^verbatim>\<open>RuntimeError\<close> when the tensor
  has no element.
\<close>

definition norm_sg :: "fval ndarray \<Rightarrow> py_error + fval ndarray" where
  "norm_sg spectrogram =
     (if elements spectrogram = [] then Inl RuntimeError
      else
        let mn = array_min spectrogram;
            mx = array_max spectrogram
        in Inr (spectrogram\<lparr>rows :=
                  map (map (\<lambda>x. fdiv (fsub x mn) (fsub mx mn))) (rows spectrogram)\<rparr>))"

subsection \<open>Python floats\<close>

text \<open>
  The frame ratio of \<^verbatim>\<open>extract_chunk\<close> is computed on Python floats, which are IEEE 754
  binary64 numbers. \<open>fl\<close> rounds a rational to the nearest float, ties to even, with 53
  significant bits and the subnormal spacing \<open>2^-1074\<close> at the bottom of the range.
\<close>

definition fl :: "rat \<Rightarrow> rat" where
  "fl x =
     (if x = 0 then 0
      else let e = max (ilog2 \<bar>x\<bar> - 52) (- 1074)
           in of_int (py_round (x / pow2 e)) * pow2 e)"

text \<open>
  A value that rounds beyond the largest float is no float. Where Python produces such a
  value it raises \<^verbatim>\<open>OverflowError\<close>: at once in \<^verbatim>\<open>int / int\<close> and in the conversion of
  an \<^verbatim>\<open>int\<close>, and in \<^verbatim>\<open>round\<close> when a product has become infinite.
\<close>

definition to_float :: "rat \<Rightarrow> py_error + rat" where
  "to_float x =
     (if 2 ^ 1024 - 2 ^ 970 \<le> \<bar>x\<bar> then Inl OverflowError else Inr (fl x))"

text \<open>\<^verbatim>\<open>a / b\<close> on two \<^verbatim>\<open>int\<close>s: the correctly rounded quotient.\<close>

definition int_true_div :: "int \<Rightarrow> int \<Rightarrow> py_error + rat" where
  "int_true_div a b =
     (if b = 0 then Inl ZeroDivisionError else to_float (of_int a / of_int b))"

text \<open>\<^verbatim>\<open>round(i * x)\<close> for an \<^verbatim>\<open>int\<close> \<open>i\<close> and a float \<open>x\<close>.\<close>

definition round_int_mul :: "int \<Rightarrow> rat \<Rightarrow> py_error + int" where
  "round_int_mul i x =
     (case to_float (of_int i) of
        Inl e \<Rightarrow> Inl e
      | Inr fi \<Rightarrow>
          (case to_float (fi * x) of
             Inl e \<Rightarrow> Inl e
           | Inr p \<Rightarrow> Inr (py_round p)))"

subsection \<open>The chunk aligner\<close>

text \<open>\<^verbatim>\<open>np.concatenate([a, row], axis=0)\<close> for one row of the width of \<open>a\<close>.\<close>

definition append_row :: "'a ndarray \<Rightarrow> 'a list \<Rightarrow> 'a ndarray" where
  "append_row a r = a\<lparr>rows := rows a @ [r]\<rparr>"

text \<open>\<^verbatim>\<open>np.concatenate([a, col], axis=1)\<close> for one column of the height of \<open>a\<close>.\<close>

definition append_col :: "'a ndarray \<Rightarrow> 'a list \<Rightarrow> 'a ndarray" where
  "append_col a c =
     \<lparr>ncols = ncols a + 1, rows = map (\<lambda>(r, x). r @ [x]) (zip (rows a) c)\<rparr>"

text \<open>
  The symbolic frame of an acoustic frame index:
  \<^verbatim>\<open>round(start * pr_to_sg)\<close> with \<^verbatim>\<open>pr_to_sg = pr_frames / song_len\<close>.
\<close>

definition sym_index :: "nat \<Rightarrow> int \<Rightarrow> int \<Rightarrow> py_error + int" where
  "sym_index pr_frames song_len i =
     (case int_true_div (int pr_frames) song_len of
        Inl e \<Rightarrow> Inl e
      | Inr pr_to_sg \<Rightarrow> round_int_mul i pr_to_sg)"

definition extract_chunk ::
  "fval ndarray \<Rightarrow> fval ndarray \<Rightarrow> int \<Rightarrow> int \<Rightarrow> int \<Rightarrow>
     py_error + (fval ndarray \<times> fval ndarray)" where
  "extract_chunk piano_roll norm_db start stop song_len =
     (let pr_frames = ncols piano_roll in
      case int_true_div (int pr_frames) song_len of
        Inl e \<Rightarrow> Inl e
      | Inr pr_to_sg \<Rightarrow>
     (case round_int_mul start pr_to_sg of
        Inl e \<Rightarrow> Inl e
      | Inr start_pr \<Rightarrow>
     (case round_int_mul stop pr_to_sg of
        Inl e \<Rightarrow> Inl e
      | Inr end_pr \<Rightarrow>
          let pr_chunk = slice_cols piano_roll start_pr end_pr;
              pr_chunk = append_row pr_chunk (replicate (ncols pr_chunk) (Fin 0));
              eos_token = replicate (nrows pr_chunk - 1) (Fin 0) @ [Fin 1];
              pr_chunk = append_col pr_chunk eos_token;
              sg_chunk = slice_cols norm_db start stop
          in Inr (pr_chunk, sg_chunk))))"

subsection \<open>Persistence\<close>

text \<open>
  A path is its list of components; \<^verbatim>\<open>joinpath\<close> adds one. The storage is the list of
  the files written so far, in the order of writing, and \<open>writable\<close> tells the paths at
  which a write succeeds. \<^verbatim>\<open>np.save\<close> keeps a file name that ends in \<^verbatim>\<open>.npy\<close>, as
  every name built here does.
\<close>

type_synonym path = "string list"

type_synonym storage = "(path \<times> fval ndarray) list"

definition joinpath :: "path \<Rightarrow> string \<Rightarrow> path" where
  "joinpath p name = p @ [name]"

definition save_array ::
  "(path \<Rightarrow> bool) \<Rightarrow> fval ndarray \<Rightarrow> path \<Rightarrow> storage \<Rightarrow> py_error + storage" where
  "save_array writable arr save_fp fs =
     (if writable save_fp then Inr (fs @ [(save_fp, arr)]) else Inl IOError)"

subsection \<open>Formatting integers\<close>

definition digit_char :: "nat \<Rightarrow> char" where
  "digit_char d = ''0123456789'' ! d"

fun str_nat :: "nat \<Rightarrow> string" where
  "str_nat n = (if n < 10 then [digit_char n] else str_nat (n div 10) @ [digit_char (n mod 10)])"

declare str_nat.simps [simp del]

text \<open>\<^verbatim>\<open>str(i)\<close>, as an f-string formats an \<^verbatim>\<open>int\<close>.\<close>

definition str_int :: "int \<Rightarrow> string" where
  "str_int i = (if i < 0 then CHR ''-'' # str_nat (nat (- i)) else str_nat (nat i))"

subsection \<open>The segment driver\<close>

text \<open>\<^verbatim>\<open>range(start, stop, step)\<close>\<close>

function range_up :: "int \<Rightarrow> int \<Rightarrow> int \<Rightarrow> int list" where
  "range_up i stop step =
     (if 0 < step \<and> i < stop then i # range_up (i + step) stop step else [])"
  by pat_completeness auto
termination
  by (relation "measure (\<lambda>(i, stop, step). nat (stop - i))") auto

function range_down :: "int \<Rightarrow> int \<Rightarrow> int \<Rightarrow> int list" where
  "range_down i stop step =
     (if step < 0 \<and> stop < i then i # range_down (i + step) stop step else [])"
  by pat_completeness auto
termination
  by (relation "measure (\<lambda>(i, stop, step). nat (i - stop))") auto

declare range_up.simps [simp del] range_down.simps [simp del]

definition py_range :: "int \<Rightarrow> int \<Rightarrow> int \<Rightarrow> py_error + int list" where
  "py_range start stop step =
     (if step = 0 then Inl ValueError
      else if 0 < step then Inr (range_up start stop step)
      else Inr (range_down start stop step))"

text \<open>
  The body of the loop of \<^verbatim>\<open>create_tensor\<close>, run for the values of \<^verbatim>\<open>m_sec\<close> in
  turn. An exception ends the loop: the result is the storage as it is then, and the
  exception.
\<close>

fun create_loop ::
  "(path \<Rightarrow> bool) \<Rightarrow> fval ndarray \<Rightarrow> fval ndarray \<Rightarrow> int \<Rightarrow> int \<Rightarrow> path \<Rightarrow> string \<Rightarrow>
     int list \<Rightarrow> storage \<Rightarrow> storage \<times> py_error option" where
  "create_loop writable piano_roll norm_db song_len chunk_len save_path stem [] fs =
     (fs, None)"
| "create_loop writable piano_roll norm_db song_len chunk_len save_path stem (m_sec # ms) fs =
     (case extract_chunk piano_roll norm_db m_sec (m_sec + chunk_len) song_len of
        Inl e \<Rightarrow> (fs, Some e)
      | Inr (pr_chunk, sg_chunk) \<Rightarrow>
     (case save_array writable sg_chunk
             (joinpath save_path
                (str_int m_sec @ ''-'' @ str_int (m_sec + chunk_len) @ ''-'' @ stem
                   @ ''-spec.npy'')) fs of
        Inl e \<Rightarrow> (fs, Some e)
      | Inr fs1 \<Rightarrow>
     (case save_array writable pr_chunk
             (joinpath save_path
                (str_int m_sec @ ''-'' @ str_int (m_sec + chunk_len) @ ''-'' @ stem
                   @ ''-piano.npy'')) fs1 of
        Inl e \<Rightarrow> (fs1, Some e)
      | Inr fs2 \<Rightarrow>
          create_loop writable piano_roll norm_db song_len chunk_len save_path stem ms fs2)))"

text \<open>
  \<^verbatim>\<open>create_tensor\<close>, from the normalisation on. \<open>stem\<close> is \<^verbatim>\<open>audio_path.stem\<close>.
\<close>

definition create_tensor ::
  "(path \<Rightarrow> bool) \<Rightarrow> fval ndarray \<Rightarrow> fval ndarray \<Rightarrow> int \<Rightarrow> path \<Rightarrow> string \<Rightarrow>
     storage \<Rightarrow> storage \<times> py_error option" where
  "create_tensor writable piano_roll mel_spectrogram_db chunk_len save_path stem fs =
     (case norm_sg mel_spectrogram_db of
        Inl e \<Rightarrow> (fs, Some e)
      | Inr norm_db \<Rightarrow>
          let song_len = int (ncols norm_db) in
          (case py_range 0 song_len chunk_len of
             Inl e \<Rightarrow> (fs, Some e)
           | Inr ms \<Rightarrow>
               create_loop writable piano_roll norm_db song_len chunk_len save_path stem
                 ms fs))"

subsection \<open>The naming convention of the specification\<close>

text \<open>
  The name of a persisted artifact as the specification writes it,
  \<^verbatim>\<open>{start}-{stop}-{target_identifier}-{kind}.{ext}\<close>, and the pair of artifacts of one
  window: the acoustic slice under the kind \<^verbatim>\<open>spec\<close>, then the symbolic slice under the
  kind \<^verbatim>\<open>piano\<close>. These two definitions follow the specification, not the source; the
  theorems below compare the files that \<^verbatim>\<open>create_tensor\<close> writes with them.
\<close>

definition artifact_name :: "int \<Rightarrow> int \<Rightarrow> string \<Rightarrow> string \<Rightarrow> string \<Rightarrow> string" where
  "artifact_name start stop target_identifier kind ext =
     str_int start @ ''-'' @ str_int stop @ ''-'' @ target_identifier @ ''-'' @ kind
       @ ''.'' @ ext"

definition window_files ::
  "path \<Rightarrow> string \<Rightarrow> int \<Rightarrow> int \<Rightarrow> fval ndarray \<times> fval ndarray \<Rightarrow> storage" where
  "window_files save_path target_identifier start stop pair =
     [(joinpath save_path (artifact_name start stop target_identifier ''spec'' ''npy''),
       snd pair),
      (joinpath save_path (artifact_name start stop target_identifier ''piano'' ''npy''),
       fst pair)]"

subsection \<open>Example arrays\<close>

definition example_roll :: "fval ndarray" where
  "example_roll =
     \<lparr>ncols = 6, rows = [map Fin [0, 1, 2, 3, 4, 5], map Fin [10, 11, 12, 13, 14, 15]]\<rparr>"

definition example_mel :: "fval ndarray" where
  "example_mel = \<lparr>ncols = 3, rows = [map Fin [- 80, - 40, 0]]\<rparr>"

definition example_norm_db :: "fval ndarray" where
  "example_norm_db = \<lparr>ncols = 3, rows = [map Fin [0, 1 / 2, 1]]\<rparr>"

definition example_norm_db_10 :: "fval ndarray" where
  "example_norm_db_10 =
     \<lparr>ncols = 10, rows = [map Fin [0, 1 / 8, 1 / 4, 3 / 8, 1 / 2, 5 / 8, 3 / 4, 7 / 8, 1, 1 / 2]]\<rparr>"

definition example_files :: storage where
  "example_files =
     [([''out'', ''0-2-song-spec.npy''], \<lparr>ncols = 2, rows = [map Fin [0, 1 / 2]]\<rparr>),
      ([''out'', ''0-2-song-piano.npy''],
       \<lparr>ncols = 5, rows = [map Fin [0, 1, 2, 3, 0], map Fin [10, 11, 12, 13, 0],
                           map Fin [0, 0, 0, 0, 1]]\<rparr>),
      ([''out'', ''2-4-song-spec.npy''], \<lparr>ncols = 1, rows = [map Fin [1]]\<rparr>),
      ([''out'', ''2-4-song-piano.npy''],
       \<lparr>ncols = 3, rows = [map Fin [4, 5, 0], map Fin [14, 15, 0], map Fin [0, 0, 1]]\<rparr>)]"

text \<open>A storage on which every write succeeds, and one that refuses a single file.\<close>

definition always_writable :: "path \<Rightarrow> bool" where
  "always_writable p = True"

definition first_spec_refused :: "path \<Rightarrow> bool" where
  "first_spec_refused p = (p \<noteq> [''out'', ''0-2-song-spec.npy''])"

definition example_mel_95 :: "fval ndarray" where
  "example_mel_95 = \<lparr>ncols = 95, rows = [Fin 0 # replicate 94 (Fin (- 80))]\<rparr>"

definition example_files_95 :: storage where
  "example_files_95 =
     [([''out'', ''0-100-song-spec.npy''],
       \<lparr>ncols = 95, rows = [Fin 1 # replicate 94 (Fin 0)]\<rparr>),
      ([''out'', ''0-100-song-piano.npy''],
       \<lparr>ncols = 7, rows = [map Fin [0, 1, 2, 3, 4, 5, 0], map Fin [10, 11, 12, 13, 14, 15, 0],
                           map Fin [0, 0, 0, 0, 0, 0, 1]]\<rparr>)]"

definition example_pr_chunk :: "fval ndarray" where
  "example_pr_chunk =
     \<lparr>ncols = 3, rows = [map Fin [2, 3, 0], map Fin [12, 13, 0], map Fin [0, 0, 1]]\<rparr>"

definition example_sg_chunk :: "fval ndarray" where
  "example_sg_chunk = \<lparr>ncols = 1, rows = [[Fin (1 / 2)]]\<rparr>"

definition example_wide :: "fval ndarray" where
  "example_wide = \<lparr>ncols = 3, rows = [[Fin (- (2 ^ 127)), Fin 0, Fin (2 ^ 127)]]\<rparr>"

definition example_constant :: "fval ndarray" where
  "example_constant = \<lparr>ncols = 2, rows = [[Fin 3, Fin 3]]\<rparr>"

section \<open>Properties\<close>

subsection \<open>Rounding to the nearest integer\<close>

lemma py_round_abs_le: "\<bar>of_int (py_round x)\<bar> \<le> 2 * \<bar>x\<bar>"
proof -
  define f where "f = \<lfloor>x\<rfloor>"
  have lo: "of_int f \<le> x" and hi: "x < of_int f + 1"
    unfolding f_def by linarith+
  show ?thesis
  proof (cases "0 \<le> x")
    case True
    then have "0 \<le> f" unfolding f_def by simp
    then have "(0::rat) \<le> of_int f" by simp
    with True lo hi show ?thesis
      unfolding py_round_def Let_def f_def [symmetric]
      by (auto simp: abs_if)
  next
    case False
    then have "f < 0" unfolding f_def by linarith
    then have "f \<le> - 1" by simp
    then have "(of_int f :: rat) \<le> - 1" by (metis of_int_le_iff of_int_minus of_int_1)
    with False lo hi show ?thesis
      unfolding py_round_def Let_def f_def [symmetric]
      by (auto simp: abs_if)
  qed
qed

lemma py_round_half_even:
  "\<bar>of_int (py_round x) - x\<bar> \<le> 1 / 2 \<and>
   (\<bar>of_int (py_round x) - x\<bar> = 1 / 2 \<longrightarrow> even (py_round x))"
proof -
  define f where "f = \<lfloor>x\<rfloor>"
  have lo: "of_int f \<le> x" and hi: "x < of_int f + 1"
    unfolding f_def by linarith+
  show ?thesis
    unfolding py_round_def Let_def f_def [symmetric] using lo hi
    by (auto simp: abs_if)
qed

lemma py_round_of_int: "py_round (of_int z) = z"
  by (simp add: py_round_def)

lemma py_round_mono: "x \<le> y \<Longrightarrow> py_round x \<le> py_round y"
proof -
  assume xy: "x \<le> y"
  define f where "f = \<lfloor>x\<rfloor>"
  define g where "g = \<lfloor>y\<rfloor>"
  have fx: "of_int f \<le> x" "x < of_int f + 1" and gy: "of_int g \<le> y" "y < of_int g + 1"
    unfolding f_def g_def by linarith+
  have fg: "f \<le> g"
    unfolding f_def g_def using xy by (rule floor_mono)
  have rx: "py_round x \<le> f + 1" and ry: "g \<le> py_round y"
    by (simp_all add: py_round_def Let_def f_def g_def)
  show ?thesis
  proof (cases "f = g")
    case True
    then show ?thesis
      using xy unfolding py_round_def Let_def f_def [symmetric] g_def [symmetric]
      by auto
  next
    case False
    with fg have "f + 1 \<le> g" by simp
    with rx ry show ?thesis by linarith
  qed
qed

lemma py_round_nonneg: "0 \<le> x \<Longrightarrow> 0 \<le> py_round x"
  using py_round_mono [of 0 x] by (simp add: py_round_def)

subsection \<open>Powers of two and the binary exponent\<close>

lemma pow2_pos: "0 < pow2 e"
  by (simp add: pow2_def)

lemma pow2_add: "pow2 (a + b) = pow2 a * pow2 b"
proof -
  have "pow2 e = 2 powi e" for e
    by (simp add: pow2_def power_int_def field_simps)
  then show ?thesis
    by (simp add: power_int_add)
qed

lemma pow2_of_nat: "pow2 (int n) = 2 ^ n"
  by (simp add: pow2_def)

lemma pow2_mono: "a \<le> b \<Longrightarrow> pow2 a \<le> pow2 b"
proof -
  assume "a \<le> b"
  then obtain n where b: "b = a + int n"
    by (metis zle_iff_zadd)
  have "(1::rat) \<le> 2 ^ n" by simp
  then have "pow2 a * 1 \<le> pow2 a * 2 ^ n"
    using pow2_pos [of a] by (intro mult_left_mono) simp_all
  then show ?thesis
    by (simp add: b pow2_add pow2_of_nat)
qed

lemma pow2_less_cancel: "pow2 a < pow2 b \<Longrightarrow> a < b"
  using pow2_mono [of b a] by (cases "a < b") simp_all

lemma ilog2_bounds:
  assumes "0 < x"
  shows "pow2 (ilog2 x) \<le> x \<and> x < pow2 (ilog2 x + 1)"
proof (cases "1 \<le> x")
  case True
  define n where "n = \<lfloor>x\<rfloor>"
  have n: "0 < n" "of_int n \<le> x" "x < of_int n + 1"
    unfolding n_def using True by (simp_all add: floor_less_iff) linarith+
  have k: "ilog2 x = bitlen n - 1"
    using True by (simp add: ilog2_def n_def)
  have b1: "1 \<le> bitlen n"
    using n(1) by (simp add: bitlen_alt_def)
  from bitlen_bounds [OF n(1)] have lo: "2 ^ nat (bitlen n - 1) \<le> n" and hi: "n < 2 ^ nat (bitlen n)"
    by simp_all
  have "pow2 (bitlen n - 1) = of_int (2 ^ nat (bitlen n - 1))"
    using b1 by (simp add: pow2_def)
  also have "\<dots> \<le> of_int n"
    using lo by (simp only: of_int_le_iff)
  finally have 1: "pow2 (ilog2 x) \<le> x"
    using n(2) k by simp
  have "n + 1 \<le> 2 ^ nat (bitlen n)"
    using hi by simp
  then have "rat_of_int (n + 1) \<le> of_int (2 ^ nat (bitlen n))"
    by (simp only: of_int_le_iff)
  then have "x < pow2 (bitlen n)"
    using n(3) b1 by (simp add: pow2_def)
  with 1 k show ?thesis by simp
next
  case False
  then have x1: "x < 1" by simp
  define n where "n = \<lceil>1 / x\<rceil> - 1"
  have i: "1 < 1 / x"
    using assms x1 by simp
  have up: "1 / x \<le> of_int n + 1" and dn: "of_int n < 1 / x"
    unfolding n_def by (simp_all add: le_of_int_ceiling) linarith
  have n: "0 < n"
    unfolding n_def using i by (simp add: less_ceiling_iff)
  have k: "ilog2 x = - bitlen n"
    using False by (simp add: ilog2_def n_def)
  have b1: "1 \<le> bitlen n"
    using n by (simp add: bitlen_alt_def)
  from bitlen_bounds [OF n] have lo: "2 ^ nat (bitlen n - 1) \<le> n" and hi: "n < 2 ^ nat (bitlen n)"
    by simp_all
  have "n + 1 \<le> 2 ^ nat (bitlen n)"
    using hi by simp
  then have "rat_of_int (n + 1) \<le> of_int (2 ^ nat (bitlen n))"
    by (simp only: of_int_le_iff)
  then have "1 / x \<le> 2 ^ nat (bitlen n)"
    using up by simp
  then have "1 / 2 ^ nat (bitlen n) \<le> x"
    using assms by (simp add: field_simps)
  then have 1: "pow2 (- bitlen n) \<le> x"
    using b1 by (simp add: pow2_def)
  have "rat_of_int (2 ^ nat (bitlen n - 1)) \<le> of_int n"
    using lo by (simp only: of_int_le_iff)
  moreover have "rat_of_int (2 ^ nat (bitlen n - 1)) = 2 ^ nat (bitlen n - 1)"
    by simp
  ultimately have "2 ^ nat (bitlen n - 1) < 1 / x"
    using dn by linarith
  then have 2: "x < 1 / 2 ^ nat (bitlen n - 1)"
    using assms by (simp add: field_simps)
  have "pow2 (- bitlen n + 1) = 1 / 2 ^ nat (bitlen n - 1)"
  proof (cases "bitlen n = 1")
    case True
    then show ?thesis by (simp add: pow2_def)
  next
    case False
    with b1 have "1 < bitlen n" by simp
    then have "nat (- (- bitlen n + 1)) = nat (bitlen n - 1)" by simp
    with \<open>1 < bitlen n\<close> show ?thesis by (simp add: pow2_def)
  qed
  with 1 2 k show ?thesis by simp
qed

lemma ilog2_mono:
  assumes "0 < x" and "x \<le> y"
  shows "ilog2 x \<le> ilog2 y"
proof -
  have "pow2 (ilog2 x) \<le> x" "y < pow2 (ilog2 y + 1)"
    using ilog2_bounds [of x] ilog2_bounds [of y] assms by simp_all
  then have "pow2 (ilog2 x) < pow2 (ilog2 y + 1)"
    using assms(2) by linarith
  from pow2_less_cancel [OF this] show ?thesis by simp
qed

lemma bitlen_le_53:
  assumes "0 < n" and "n < 2 ^ 53"
  shows "bitlen n \<le> 53"
proof -
  have "floorlog 2 (nat n) \<le> 53"
    using assms by (simp add: floorlog_le_iff nat_less_iff)
  then show ?thesis
    by (simp add: bitlen_def)
qed

subsection \<open>Rounding to a float\<close>

lemma fl_abs_le: "\<bar>fl x\<bar> \<le> 2 * \<bar>x\<bar>"
proof (cases "x = 0")
  case True
  then show ?thesis by (simp add: fl_def)
next
  case False
  define e where "e = max (ilog2 \<bar>x\<bar> - 52) (- 1074)"
  have p: "0 < pow2 e" by (rule pow2_pos)
  have "\<bar>fl x\<bar> = \<bar>of_int (py_round (x / pow2 e))\<bar> * pow2 e"
    using False p by (simp add: fl_def Let_def e_def [symmetric] abs_mult)
  also have "\<dots> \<le> (2 * \<bar>x / pow2 e\<bar>) * pow2 e"
    by (rule mult_right_mono [OF py_round_abs_le]) (use p in simp)
  also have "\<dots> = 2 * \<bar>x\<bar>"
    using p by (simp add: abs_divide)
  finally show ?thesis .
qed

lemma fl_round_float: "fl x = round_float 52 (- 1074) x"
  by (simp add: fl_def round_float_def)

lemma round_float_nonneg: "0 \<le> x \<Longrightarrow> 0 \<le> round_float t emin x"
  by (auto simp: round_float_def Let_def intro!: mult_nonneg_nonneg py_round_nonneg
      simp: pow2_pos less_imp_le)

lemma round_float_mono_pos:
  assumes "0 < x" and "x \<le> y"
  shows "round_float t emin x \<le> round_float t emin y"
proof -
  define ex where "ex = max (ilog2 x - int t) emin"
  define ey where "ey = max (ilog2 y - int t) emin"
  have y: "0 < y" using assms by simp
  have fx: "round_float t emin x = of_int (py_round (x / pow2 ex)) * pow2 ex"
    using assms(1) by (simp add: round_float_def Let_def ex_def)
  have fy: "round_float t emin y = of_int (py_round (y / pow2 ey)) * pow2 ey"
    using y by (simp add: round_float_def Let_def ey_def)
  have le: "ex \<le> ey"
    unfolding ex_def ey_def using ilog2_mono [OF assms] by simp
  show ?thesis
  proof (cases "ex = ey")
    case True
    have "x / pow2 ey \<le> y / pow2 ey"
      using assms(2) pow2_pos [of ey] by (simp add: divide_right_mono)
    then have "py_round (x / pow2 ey) \<le> py_round (y / pow2 ey)"
      by (rule py_round_mono)
    then have "rat_of_int (py_round (x / pow2 ey)) \<le> of_int (py_round (y / pow2 ey))"
      by (simp only: of_int_le_iff)
    then show ?thesis
      unfolding fx fy True using pow2_pos [of ey] by (simp add: mult_right_mono)
  next
    case False
    with le have lt: "ex + 1 \<le> ey" by simp
    then have ey: "ey = ilog2 y - int t"
      unfolding ey_def ex_def by simp
    have "x < pow2 (ilog2 x + 1)"
      using ilog2_bounds [OF assms(1)] by simp
    also have "\<dots> \<le> pow2 (ex + int (Suc t))"
      unfolding ex_def by (intro pow2_mono) simp
    also have "\<dots> = pow2 ex * 2 ^ Suc t"
      using pow2_add [of ex "int (Suc t)"] pow2_of_nat [of "Suc t"] by simp
    finally have "x / pow2 ex \<le> of_int (2 ^ Suc t)"
      using pow2_pos [of ex] by (simp add: field_simps)
    then have "py_round (x / pow2 ex) \<le> py_round (of_int (2 ^ Suc t))"
      by (rule py_round_mono)
    then have "py_round (x / pow2 ex) \<le> 2 ^ Suc t"
      by (simp only: py_round_of_int)
    then have "rat_of_int (py_round (x / pow2 ex)) \<le> of_int (2 ^ Suc t)"
      by (simp only: of_int_le_iff)
    then have "round_float t emin x \<le> of_int (2 ^ Suc t) * pow2 ex"
      unfolding fx using pow2_pos [of ex] by (intro mult_right_mono) simp_all
    also have "\<dots> = pow2 (ex + 1) * 2 ^ t"
      using pow2_add [of ex 1] by (simp add: pow2_def [of 1])
    also have "\<dots> \<le> pow2 ey * 2 ^ t"
      using pow2_mono [OF lt] by (intro mult_right_mono) simp_all
    finally have 1: "round_float t emin x \<le> pow2 ey * 2 ^ t" .
    have "pow2 ey * 2 ^ t = pow2 (ilog2 y)"
      using pow2_add [of ey "int t"] pow2_of_nat [of t] by (simp add: ey)
    also have "\<dots> \<le> y"
      using ilog2_bounds [OF y] by simp
    finally have "of_int (2 ^ t) \<le> y / pow2 ey"
      using pow2_pos [of ey] by (simp add: field_simps)
    then have "py_round (of_int (2 ^ t)) \<le> py_round (y / pow2 ey)"
      by (rule py_round_mono)
    then have "2 ^ t \<le> py_round (y / pow2 ey)"
      by (simp only: py_round_of_int)
    then have "rat_of_int (2 ^ t) \<le> of_int (py_round (y / pow2 ey))"
      by (simp only: of_int_le_iff)
    then have "of_int (2 ^ t) * pow2 ey \<le> round_float t emin y"
      unfolding fy using pow2_pos [of ey] by (intro mult_right_mono) simp_all
    with 1 show ?thesis
      by (simp add: mult.commute)
  qed
qed

lemma round_float_mono_nonneg:
  assumes "0 \<le> x" and "x \<le> y"
  shows "round_float t emin x \<le> round_float t emin y"
proof (cases "x = 0")
  case True
  then show ?thesis
    using round_float_nonneg [of y t emin] assms by (simp add: round_float_def)
next
  case False
  with assms(1) have "0 < x" by simp
  then show ?thesis
    using assms(2) by (rule round_float_mono_pos)
qed

text \<open>A rounded number is a multiple of the least spacing.\<close>

lemma round_float_multiple: "\<exists>n::int. round_float t emin x = of_int n * pow2 emin"
proof (cases "x = 0")
  case True
  then have "round_float t emin x = of_int 0 * pow2 emin"
    by (simp add: round_float_def)
  then show ?thesis by blast
next
  case False
  define e where "e = max (ilog2 \<bar>x\<bar> - int t) emin"
  define k where "k = nat (e - emin)"
  have "e = emin + int k"
    by (simp add: k_def e_def)
  then have "pow2 e = 2 ^ k * pow2 emin"
    by (simp add: pow2_add pow2_of_nat mult.commute)
  then have "round_float t emin x = of_int (py_round (x / pow2 e) * 2 ^ k) * pow2 emin"
    using False by (simp add: round_float_def Let_def e_def [symmetric])
  then show ?thesis by blast
qed

lemma fl_nonneg: "0 \<le> x \<Longrightarrow> 0 \<le> fl x"
  unfolding fl_round_float by (rule round_float_nonneg)

lemma fl_mono_nonneg: "0 \<le> x \<Longrightarrow> x \<le> y \<Longrightarrow> fl x \<le> fl y"
  unfolding fl_round_float by (rule round_float_mono_nonneg)

lemma fl_of_int_exact:
  assumes "\<bar>n\<bar> < 2 ^ 53"
  shows "fl (of_int n) = of_int n"
proof (cases "n = 0")
  case True
  then show ?thesis by (simp add: fl_def)
next
  case False
  define a where "a = \<bar>n\<bar>"
  have a: "0 < a" "a < 2 ^ 53"
    using False assms by (simp_all add: a_def)
  then have "(1::rat) \<le> of_int a"
    by (metis of_int_1_le_iff zless_imp_add1_zle add_0)
  moreover have abs: "\<bar>rat_of_int n\<bar> = of_int a"
    by (simp add: a_def)
  ultimately have "ilog2 \<bar>rat_of_int n\<bar> = bitlen a - 1"
    by (simp only: ilog2_def abs floor_of_int if_True)
  moreover have "1 \<le> bitlen a"
    using a(1) by (simp add: bitlen_alt_def)
  ultimately have e: "max (ilog2 \<bar>rat_of_int n\<bar> - 52) (- 1074) = - int (nat (53 - bitlen a))"
    using bitlen_le_53 [OF a] by simp
  define j where "j = nat (53 - bitlen a)"
  have p: "pow2 (- int j) = 1 / 2 ^ j"
    by (simp add: pow2_def)
  have "rat_of_int n / pow2 (- int j) = of_int (n * 2 ^ j)"
    by (simp add: p)
  then have "py_round (rat_of_int n / pow2 (- int j)) = n * 2 ^ j"
    by (simp only: py_round_of_int)
  then show ?thesis
    using False by (simp add: fl_def Let_def e j_def [symmetric] p)
qed

lemma to_float_ok: "\<bar>x\<bar> < 2 ^ 1024 - 2 ^ 970 \<Longrightarrow> to_float x = Inr (fl x)"
  by (simp add: to_float_def)

lemma to_float_of_int_exact: "\<bar>n\<bar> < 2 ^ 53 \<Longrightarrow> to_float (of_int n) = Inr (of_int n)"
proof -
  assume n: "\<bar>n\<bar> < 2 ^ 53"
  then have "\<bar>rat_of_int n\<bar> < 2 ^ 53"
    by (metis of_int_abs of_int_less_iff of_int_numeral of_int_power)
  then have "to_float (of_int n) = Inr (fl (of_int n))"
    by (intro to_float_ok) simp
  then show ?thesis
    by (simp add: fl_of_int_exact [OF n])
qed

lemma int_true_div_ok:
  assumes "b \<noteq> 0" and "\<bar>a\<bar> < 2 ^ 63"
  shows "\<exists>q. int_true_div a b = Inr q \<and> \<bar>q\<bar> \<le> 2 ^ 64"
proof -
  have b1: "1 \<le> \<bar>rat_of_int b\<bar>"
    using assms(1) by (metis abs_ge_zero of_int_abs of_int_1 of_int_le_iff zero_less_abs_iff zless_imp_add1_zle add_0)
  have "\<bar>rat_of_int a / rat_of_int b\<bar> \<le> \<bar>rat_of_int a\<bar>"
  proof -
    have "\<bar>rat_of_int a\<bar> / \<bar>rat_of_int b\<bar> \<le> \<bar>rat_of_int a\<bar> / 1"
      using b1 by (intro divide_left_mono) simp_all
    then show ?thesis by (simp add: abs_divide)
  qed
  moreover have "\<bar>rat_of_int a\<bar> < 2 ^ 63"
    using assms(2) by (metis of_int_abs of_int_less_iff of_int_numeral of_int_power)
  ultimately have q: "\<bar>rat_of_int a / rat_of_int b\<bar> < 2 ^ 63"
    by linarith
  then have "to_float (rat_of_int a / rat_of_int b) = Inr (fl (rat_of_int a / rat_of_int b))"
    by (intro to_float_ok) simp
  moreover have "\<bar>fl (rat_of_int a / rat_of_int b)\<bar> \<le> 2 ^ 64"
    using fl_abs_le [of "rat_of_int a / rat_of_int b"] q by simp
  ultimately show ?thesis
    using assms(1) by (simp add: int_true_div_def)
qed

lemma round_int_mul_ok:
  assumes "\<bar>i\<bar> < 2 ^ 64" and "\<bar>x\<bar> \<le> 2 ^ 64"
  shows "\<exists>r. round_int_mul i x = Inr r"
proof -
  have i: "\<bar>rat_of_int i\<bar> < 2 ^ 64"
    using assms(1) by (metis of_int_abs of_int_less_iff of_int_numeral of_int_power)
  then have 1: "to_float (rat_of_int i) = Inr (fl (rat_of_int i))"
    by (intro to_float_ok) simp
  have fi: "\<bar>fl (rat_of_int i)\<bar> \<le> 2 ^ 65"
    using fl_abs_le [of "rat_of_int i"] i by simp
  have "\<bar>fl (rat_of_int i) * x\<bar> \<le> 2 ^ 65 * 2 ^ 64"
    unfolding abs_mult using fi assms(2) by (intro mult_mono) simp_all
  then have "to_float (fl (rat_of_int i) * x) = Inr (fl (fl (rat_of_int i) * x))"
    by (intro to_float_ok) simp
  with 1 show ?thesis
    by (simp add: round_int_mul_def)
qed

subsection \<open>Computing with concrete floats and arrays\<close>

text \<open>Rules that let the simplifier compute with the floats of concrete operands.\<close>

lemma floor_rat_numeral: "\<lfloor>numeral a / numeral b :: rat\<rfloor> = numeral a div numeral b"
  using floor_divide_of_int_eq [of "numeral a" "numeral b", where 'a = rat] by simp

lemma floor_rat_neg_numeral: "\<lfloor>- (numeral a / numeral b) :: rat\<rfloor> = - numeral a div numeral b"
  using floor_divide_of_int_eq [of "- numeral a" "numeral b", where 'a = rat] by simp

lemma ceiling_rat_numeral: "\<lceil>numeral a / numeral b :: rat\<rceil> = - (- numeral a div numeral b)"
  unfolding ceiling_def by (simp add: floor_rat_neg_numeral)

lemma floor_rat_one: "\<lfloor>1 / numeral b :: rat\<rfloor> = 1 div numeral b"
  using floor_divide_of_int_eq [of 1 "numeral b", where 'a = rat] by simp

lemma floor_rat_neg_one: "\<lfloor>- (1 / numeral b) :: rat\<rfloor> = - 1 div numeral b"
  using floor_divide_of_int_eq [of "- 1" "numeral b", where 'a = rat] by simp

lemma ceiling_rat_one: "\<lceil>1 / numeral b :: rat\<rceil> = - (- 1 div numeral b)"
  unfolding ceiling_def by (simp add: floor_rat_neg_one)

lemmas float_eval =
  floor_rat_numeral floor_rat_neg_numeral ceiling_rat_numeral
  floor_rat_one floor_rat_neg_one ceiling_rat_one
  sym_index_def int_true_div_def round_int_mul_def to_float_def fl_def ilog2_def Let_def
  pow2_def py_round_def bitlen_def compute_floorlog round_float_def fl32_def f32_def

lemma replicate_numeral: "replicate (numeral k) x = x # replicate (pred_numeral k) x"
  by (simp add: numeral_eq_Suc)

lemmas array_eval = replicate_numeral
  slice_cols_def py_slice_def slice_bound_def append_row_def append_col_def nrows_def
  wf_array_def elements_def

subsection \<open>Elements in binary32\<close>

lemma fl32_nonneg: "0 \<le> x \<Longrightarrow> 0 \<le> fl32 x"
  unfolding fl32_def by (rule round_float_nonneg)

lemma fl32_mono: "0 \<le> x \<Longrightarrow> x \<le> y \<Longrightarrow> fl32 x \<le> fl32 y"
  unfolding fl32_def by (rule round_float_mono_nonneg)

lemma fl32_zero: "fl32 0 = 0"
  by (simp add: fl32_def round_float_def)

lemma fl32_one: "fl32 1 = 1"
  by (simp add: float_eval)

lemma fl32_least: "fl32 (pow2 (- 149)) = pow2 (- 149)"
  by (simp add: float_eval)

lemma f32_zero: "f32 0 = Fin 0"
  by (simp add: f32_def fl32_zero)

text \<open>The difference of two distinct binary32 numbers does not round to zero.\<close>

lemma fl32_diff_pos:
  assumes "fl32 a = a" and "fl32 b = b" and "b < a"
  shows "0 < fl32 (a - b)"
proof -
  from round_float_multiple [of 23 "- 149" a] assms(1)
  obtain n where n: "a = of_int n * pow2 (- 149)"
    by (auto simp: fl32_def)
  from round_float_multiple [of 23 "- 149" b] assms(2)
  obtain m where m: "b = of_int m * pow2 (- 149)"
    by (auto simp: fl32_def)
  have "rat_of_int m < of_int n"
    using assms(3) pow2_pos [of "- 149"] unfolding n m by (simp only: mult_less_cancel_right_pos)
  then have "m + 1 \<le> n" by simp
  then have "rat_of_int (m + 1) \<le> of_int n"
    by (simp only: of_int_le_iff)
  then have "1 * pow2 (- 149) \<le> (of_int n - of_int m) * pow2 (- 149)"
    using pow2_pos [of "- 149"] by (intro mult_right_mono) simp_all
  then have "pow2 (- 149) \<le> a - b"
    by (simp add: n m algebra_simps)
  then have "fl32 (pow2 (- 149)) \<le> fl32 (a - b)"
    using pow2_pos [of "- 149"] by (intro fl32_mono) simp_all
  then show ?thesis
    using pow2_pos [of "- 149"] by (simp add: fl32_least)
qed

subsection \<open>Slices\<close>

lemma length_py_slice:
  "length (py_slice xs i j) = slice_bound (length xs) j - slice_bound (length xs) i"
  by (auto simp: py_slice_def Let_def slice_bound_def)

lemma wf_slice_cols: "wf_array a \<Longrightarrow> wf_array (slice_cols a i j)"
  by (simp add: wf_array_def slice_cols_def list_all_iff length_py_slice)

lemma py_slice_drop:
  "0 \<le> i \<Longrightarrow> int (length xs) \<le> j \<Longrightarrow> py_slice xs i j = drop (nat i) xs"
  by (auto simp: py_slice_def slice_bound_def Let_def min_def)

lemma slice_cols_truncated:
  assumes "wf_array a" and "0 \<le> i" and "int (ncols a) \<le> j"
  shows "slice_cols a i j = \<lparr>ncols = ncols a - nat i, rows = map (drop (nat i)) (rows a)\<rparr>"
proof -
  have "py_slice r i j = drop (nat i) r" if "r \<in> set (rows a)" for r
    using that assms by (intro py_slice_drop) (auto simp: wf_array_def list_all_iff)
  moreover have "slice_bound (ncols a) j - slice_bound (ncols a) i = ncols a - nat i"
    using assms(2,3) by (auto simp: slice_bound_def)
  ultimately show ?thesis
    by (simp add: slice_cols_def cong: map_cong)
qed

lemma slice_cols_whole:
  assumes "wf_array a" and "int (ncols a) \<le> j"
  shows "slice_cols a 0 j = a"
  using slice_cols_truncated [OF assms(1) order_refl assms(2)] by simp

lemma slice_width_inside:
  "0 \<le> i \<Longrightarrow> i \<le> j \<Longrightarrow> j \<le> int n \<Longrightarrow> int (slice_bound n j - slice_bound n i) = j - i"
  by (auto simp: slice_bound_def)

lemma slice_width_truncated:
  "0 \<le> i \<Longrightarrow> i \<le> int n \<Longrightarrow> int n < j \<Longrightarrow> int (slice_bound n j - slice_bound n i) = int n - i"
  by (auto simp: slice_bound_def)

lemma slice_width_min:
  "0 \<le> i \<Longrightarrow> i \<le> j \<Longrightarrow>
     int (slice_bound n j - slice_bound n i) = min j (int n) - min i (int n)"
  by (auto simp: slice_bound_def)

lemma ncols_window_slice:
  assumes "0 \<le> m" and "m < int N" and "0 < L" and "ncols a = N"
  shows "int (ncols (slice_cols a m (m + L))) = min (m + L) (int N) - m"
  using assms by (auto simp: slice_cols_def slice_bound_def min_def)

subsection \<open>The frame ratio\<close>

lemma sym_index_ok:
  assumes "song_len \<noteq> 0" and "int pr_frames < 2 ^ 63" and "\<bar>i\<bar> < 2 ^ 64"
  shows "\<exists>r. sym_index pr_frames song_len i = Inr r"
proof -
  from int_true_div_ok [of song_len "int pr_frames"] assms
  obtain q where q: "int_true_div (int pr_frames) song_len = Inr q" "\<bar>q\<bar> \<le> 2 ^ 64"
    by auto
  from round_int_mul_ok [OF assms(3) q(2)] q(1) show ?thesis
    by (simp add: sym_index_def)
qed

lemma sym_index_exact:
  assumes "song_len \<noteq> 0" and "int pr_frames = r * song_len"
    and "\<bar>r\<bar> < 2 ^ 53" and "\<bar>i\<bar> < 2 ^ 53" and "\<bar>i * r\<bar> < 2 ^ 53"
  shows "sym_index pr_frames song_len i = Inr (i * r)"
proof -
  have "rat_of_int (int pr_frames) / rat_of_int song_len = rat_of_int r"
    using assms(1,2) by simp
  then have "int_true_div (int pr_frames) song_len = Inr (rat_of_int r)"
    using assms(1) to_float_of_int_exact [OF assms(3)] by (simp add: int_true_div_def)
  moreover have "round_int_mul i (rat_of_int r) = Inr (i * r)"
    using to_float_of_int_exact [OF assms(4)] to_float_of_int_exact [OF assms(5)]
    by (simp add: round_int_mul_def py_round_of_int del: of_int_mult add: of_int_mult [symmetric])
  ultimately show ?thesis
    by (simp add: sym_index_def)
qed

text \<open>The symbolic bounds of a window \<open>0 \<le> start \<le> stop\<close> are ordered as the window is.\<close>

lemma sym_index_mono:
  assumes "0 < song_len" and "0 \<le> i" and "i \<le> i'"
    and "sym_index pr_frames song_len i = Inr a"
    and "sym_index pr_frames song_len i' = Inr b"
  shows "0 \<le> a \<and> a \<le> b"
proof -
  define r where "r = fl (rat_of_int (int pr_frames) / rat_of_int song_len)"
  have r0: "0 \<le> r"
    unfolding r_def using assms(1) by (intro fl_nonneg) simp
  have a: "a = py_round (fl (fl (of_int i) * r))"
    using assms(4) unfolding r_def
    by (auto simp: sym_index_def int_true_div_def round_int_mul_def to_float_def
        split: if_splits sum.splits)
  have b: "b = py_round (fl (fl (of_int i') * r))"
    using assms(5) unfolding r_def
    by (auto simp: sym_index_def int_true_div_def round_int_mul_def to_float_def
        split: if_splits sum.splits)
  have i0: "0 \<le> fl (rat_of_int i)"
    using assms(2) by (intro fl_nonneg) simp
  have ii: "fl (rat_of_int i) \<le> fl (rat_of_int i')"
    using assms(2,3) by (intro fl_mono_nonneg) simp_all
  have "0 \<le> fl (rat_of_int i) * r"
    using i0 r0 by simp
  moreover have "fl (rat_of_int i) * r \<le> fl (rat_of_int i') * r"
    using ii r0 by (rule mult_right_mono)
  ultimately have "0 \<le> fl (fl (rat_of_int i) * r)"
    and "fl (fl (rat_of_int i) * r) \<le> fl (fl (rat_of_int i') * r)"
    by (simp_all add: fl_nonneg fl_mono_nonneg)
  then show ?thesis
    unfolding a b by (simp add: py_round_nonneg py_round_mono)
qed

text \<open>
  Bounds at a half: \<open>0.5\<close> goes to 0 and \<open>1.5\<close> to 2. The product is a float
  product: for 7 symbolic frames over 100 acoustic ones, the frame 150 is mapped to 11, since
  the float \<^verbatim>\<open>150 * (7 / 100)\<close> lies above \<open>10.5\<close>.
\<close>

lemma sym_index_half_boundaries:
  "sym_index 1 2 1 = Inr 0" "sym_index 1 2 3 = Inr 2" "sym_index 1 2 (- 1) = Inr 0"
  "sym_index 7 100 150 = Inr 11"
  by (simp_all add: float_eval)

subsection \<open>The chunk aligner\<close>

lemma extract_chunk_eq:
  "extract_chunk piano_roll norm_db start stop song_len =
     (case sym_index (ncols piano_roll) song_len start of
        Inl e \<Rightarrow> Inl e
      | Inr start_pr \<Rightarrow>
     (case sym_index (ncols piano_roll) song_len stop of
        Inl e \<Rightarrow> Inl e
      | Inr end_pr \<Rightarrow>
          Inr (append_col
                 (append_row (slice_cols piano_roll start_pr end_pr)
                    (replicate (ncols (slice_cols piano_roll start_pr end_pr)) (Fin 0)))
                 (replicate (nrows piano_roll) (Fin 0) @ [Fin 1]),
               slice_cols norm_db start stop)))"
  by (simp add: extract_chunk_def sym_index_def Let_def nrows_def append_row_def slice_cols_def
      split: sum.splits)

lemma extract_chunk_zero: "extract_chunk piano_roll norm_db start stop 0 = Inl ZeroDivisionError"
  by (simp add: extract_chunk_def int_true_div_def)

lemma extract_chunk_ok:
  assumes "song_len \<noteq> 0" and "int (ncols piano_roll) < 2 ^ 63"
    and "\<bar>start\<bar> < 2 ^ 64" and "\<bar>stop\<bar> < 2 ^ 64"
  shows "\<exists>c. extract_chunk piano_roll norm_db start stop song_len = Inr c"
  using sym_index_ok [OF assms(1,2,3)] sym_index_ok [OF assms(1,2,4)]
  by (auto simp: extract_chunk_eq)

lemma map_zip_replicate:
  "map (\<lambda>(r, x). r @ [x]) (zip xs (replicate (length xs) v)) = map (\<lambda>r. r @ [v]) xs"
  by (induction xs) simp_all

lemma rows_marked:
  "rows (append_col (append_row c (replicate (ncols c) z)) (replicate (length (rows c)) z @ [u]))
     = map (\<lambda>r. r @ [z]) (rows c) @ [replicate (ncols c) z @ [u]]"
  by (simp add: append_col_def append_row_def map_zip_replicate)

lemma marked_chunk:
  fixes c :: "fval ndarray"
  assumes wf: "wf_array c"
  defines "p \<equiv> append_col (append_row c (replicate (ncols c) (Fin 0)))
                  (replicate (nrows c) (Fin 0) @ [Fin 1])"
  shows "nrows p = nrows c + 1"
    and "ncols p = ncols c + 1"
    and "wf_array p"
    and "\<forall>i<nrows c. rows p ! i ! ncols c = Fin 0"
    and "rows p ! nrows c ! ncols c = Fin 1"
    and "\<forall>j<ncols c. rows p ! nrows c ! j = Fin 0"
    and "\<forall>i<nrows c. \<forall>j<ncols c. rows p ! i ! j = rows c ! i ! j"
proof -
  have r: "rows p = map (\<lambda>r. r @ [Fin 0]) (rows c) @ [replicate (ncols c) (Fin 0) @ [Fin 1]]"
    unfolding p_def nrows_def by (rule rows_marked)
  have len: "\<And>i. i < nrows c \<Longrightarrow> length (rows c ! i) = ncols c"
    using wf by (simp add: wf_array_def nrows_def list_all_length)
  show "nrows p = nrows c + 1" by (simp add: nrows_def r)
  show "ncols p = ncols c + 1" by (simp add: p_def append_col_def append_row_def)
  then show "wf_array p"
    using wf by (simp add: wf_array_def r list_all_iff)
  show "\<forall>i<nrows c. rows p ! i ! ncols c = Fin 0"
    using len by (simp add: r nth_append nrows_def)
  show "rows p ! nrows c ! ncols c = Fin 1"
    by (simp add: r nth_append nrows_def)
  show "\<forall>j<ncols c. rows p ! nrows c ! j = Fin 0"
    by (simp add: r nth_append nrows_def)
  show "\<forall>i<nrows c. \<forall>j<ncols c. rows p ! i ! j = rows c ! i ! j"
    using len by (simp add: r nth_append nrows_def)
qed

lemma rows_extract_chunk:
  assumes "extract_chunk piano_roll norm_db start stop song_len = Inr (pr_chunk, sg_chunk)"
    and "sym_index (ncols piano_roll) song_len start = Inr start_pr"
    and "sym_index (ncols piano_roll) song_len stop = Inr end_pr"
  shows "sg_chunk = slice_cols norm_db start stop"
    and "ncols pr_chunk = ncols (slice_cols piano_roll start_pr end_pr) + 1"
    and "rows pr_chunk = map (\<lambda>r. r @ [Fin 0]) (rows (slice_cols piano_roll start_pr end_pr))
           @ [replicate (ncols (slice_cols piano_roll start_pr end_pr)) (Fin 0) @ [Fin 1]]"
proof -
  from assms have pr: "pr_chunk = append_col
           (append_row (slice_cols piano_roll start_pr end_pr)
              (replicate (ncols (slice_cols piano_roll start_pr end_pr)) (Fin 0)))
           (replicate (length (rows (slice_cols piano_roll start_pr end_pr))) (Fin 0) @ [Fin 1])"
    and sg: "sg_chunk = slice_cols norm_db start stop"
    by (simp_all add: extract_chunk_eq slice_cols_def nrows_def)
  show "sg_chunk = slice_cols norm_db start stop" by (rule sg)
  show "ncols pr_chunk = ncols (slice_cols piano_roll start_pr end_pr) + 1"
    by (simp add: pr append_col_def append_row_def)
  show "rows pr_chunk = map (\<lambda>r. r @ [Fin 0]) (rows (slice_cols piano_roll start_pr end_pr))
           @ [replicate (ncols (slice_cols piano_roll start_pr end_pr)) (Fin 0) @ [Fin 1]]"
    unfolding pr by (rule rows_marked)
qed

text \<open>
  C5. For a chunk that \<^verbatim>\<open>extract_chunk\<close> returns, the symbolic rows are the columns
  \<^verbatim>\<open>start_pr:end_pr\<close> of the piano roll, where both bounds come from the same function of
  the acoustic bound: \<^verbatim>\<open>round(i * (pr_frames / song_len))\<close>, computed on floats and rounded
  to the nearest integer, a tie going to the even one. Both bounds exist when the number of
  symbolic frames is positive and machine-sized and the number of acoustic frames is
  positive. When the quotient is an integer and the product is below \<open>2^53\<close>, the bound
  is the exact product; for 1000 symbolic frames, 100 acoustic frames and the window
  \<open>(10, 20)\<close> the symbolic window is \<open>(100, 200)\<close>.
\<close>

theorem symbolic_window_mapping:
  "(extract_chunk piano_roll norm_db start stop song_len = Inr (pr_chunk, sg_chunk) \<longrightarrow>
      (\<exists>start_pr end_pr.
         sym_index (ncols piano_roll) song_len start = Inr start_pr \<and>
         sym_index (ncols piano_roll) song_len stop = Inr end_pr \<and>
         rows pr_chunk =
           map (\<lambda>r. py_slice r start_pr end_pr @ [Fin 0]) (rows piano_roll)
             @ [replicate (ncols pr_chunk - 1) (Fin 0) @ [Fin 1]] \<and>
         sg_chunk = slice_cols norm_db start stop)) \<and>
   (sym_index T_symbolic T_acoustic i = Inr j \<longrightarrow>
      j = py_round (fl (fl (of_int i) * fl (of_nat T_symbolic / of_int T_acoustic)))) \<and>
   \<bar>of_int (py_round x) - x\<bar> \<le> 1 / 2 \<and>
   (\<bar>of_int (py_round x) - x\<bar> = 1 / 2 \<longrightarrow> even (py_round x)) \<and>
   (0 < T_symbolic \<and> int T_symbolic < 2 ^ 63 \<and> 0 < T_acoustic \<and> \<bar>i\<bar> < 2 ^ 64 \<longrightarrow>
      (\<exists>j. sym_index T_symbolic T_acoustic i = Inr j)) \<and>
   (0 < T_acoustic \<and> int T_symbolic = ratio * T_acoustic \<and> ratio < 2 ^ 53 \<and>
    \<bar>i\<bar> < 2 ^ 53 \<and> \<bar>i * ratio\<bar> < 2 ^ 53 \<longrightarrow>
      sym_index T_symbolic T_acoustic i = Inr (i * ratio)) \<and>
   sym_index 1000 100 10 = Inr 100 \<and>
   sym_index 1000 100 20 = Inr 200"
proof (intro conjI impI; (elim conjE)?)
  assume e: "extract_chunk piano_roll norm_db start stop song_len = Inr (pr_chunk, sg_chunk)"
  then obtain a b where
    a: "sym_index (ncols piano_roll) song_len start = Inr a"
       "sym_index (ncols piano_roll) song_len stop = Inr b"
    by (auto simp: extract_chunk_eq split: sum.splits)
  note r = rows_extract_chunk [OF e a]
  have "rows pr_chunk = map (\<lambda>r. py_slice r a b @ [Fin 0]) (rows piano_roll)
             @ [replicate (ncols pr_chunk - 1) (Fin 0) @ [Fin 1]]"
    unfolding r(3) r(2) by (simp add: slice_cols_def comp_def)
  with a r(1) show "\<exists>start_pr end_pr.
         sym_index (ncols piano_roll) song_len start = Inr start_pr \<and>
         sym_index (ncols piano_roll) song_len stop = Inr end_pr \<and>
         rows pr_chunk =
           map (\<lambda>r. py_slice r start_pr end_pr @ [Fin 0]) (rows piano_roll)
             @ [replicate (ncols pr_chunk - 1) (Fin 0) @ [Fin 1]] \<and>
         sg_chunk = slice_cols norm_db start stop"
    by blast
next
  assume "sym_index T_symbolic T_acoustic i = Inr j"
  then show "j = py_round (fl (fl (of_int i) * fl (of_nat T_symbolic / of_int T_acoustic)))"
    by (auto simp: sym_index_def int_true_div_def round_int_mul_def to_float_def
        split: if_splits sum.splits)
next
  show "\<bar>of_int (py_round x) - x\<bar> \<le> 1 / 2"
    using py_round_half_even [of x] by blast
next
  assume "\<bar>of_int (py_round x) - x\<bar> = 1 / 2"
  then show "even (py_round x)"
    using py_round_half_even [of x] by blast
next
  assume "int T_symbolic < 2 ^ 63" "0 < T_acoustic" "\<bar>i\<bar> < 2 ^ 64"
  then show "\<exists>j. sym_index T_symbolic T_acoustic i = Inr j"
    by (intro sym_index_ok) simp_all
next
  assume "0 < T_acoustic" "int T_symbolic = ratio * T_acoustic" "ratio < 2 ^ 53"
    "\<bar>i\<bar> < 2 ^ 53" "\<bar>i * ratio\<bar> < 2 ^ 53"
  moreover from this have "0 \<le> ratio"
    by (metis of_nat_0_le_iff zero_le_mult_iff not_less order_less_imp_le)
  ultimately show "sym_index T_symbolic T_acoustic i = Inr (i * ratio)"
    by (intro sym_index_exact) simp_all
next
  show "sym_index 1000 100 10 = Inr 100"
    by (simp add: float_eval)
next
  show "sym_index 1000 100 20 = Inr 200"
    by (simp add: float_eval)
qed

theorem symbolic_window_mapping_witness:
  "extract_chunk example_roll example_norm_db 1 2 3 = Inr (example_pr_chunk, example_sg_chunk) \<and>
   sym_index 6 3 1 = Inr 2 \<and>
   \<bar>of_int (py_round (1 / 2)) - 1 / 2\<bar> = (1 / 2 :: rat) \<and>
   ((0::nat) < 6 \<and> int 6 < 2 ^ 63 \<and> (0::int) < 3 \<and> \<bar>1 :: int\<bar> < 2 ^ 64) \<and>
   ((0::int) < 3 \<and> int 6 = 2 * 3 \<and> (2::int) < 2 ^ 53 \<and> \<bar>1 :: int\<bar> < 2 ^ 53 \<and>
    \<bar>1 * 2 :: int\<bar> < 2 ^ 53) \<and>
   (\<exists>start_pr end_pr.
      sym_index (ncols example_roll) 3 1 = Inr start_pr \<and>
      sym_index (ncols example_roll) 3 2 = Inr end_pr \<and>
      rows example_pr_chunk =
        map (\<lambda>r. py_slice r start_pr end_pr @ [Fin 0]) (rows example_roll)
          @ [replicate (ncols example_pr_chunk - 1) (Fin 0) @ [Fin 1]] \<and>
      example_sg_chunk = slice_cols example_norm_db 1 2) \<and>
   2 = py_round (fl (fl (of_int 1) * fl (of_nat 6 / of_int 3))) \<and>
   even (py_round (1 / 2)) \<and>
   (\<exists>j. sym_index 6 3 1 = Inr j) \<and>
   sym_index 6 3 1 = Inr (1 * 2)"
proof -
  have h1: "extract_chunk example_roll example_norm_db 1 2 3
      = Inr (example_pr_chunk, example_sg_chunk)"
    by (simp add: extract_chunk_def example_roll_def example_norm_db_def example_pr_chunk_def
        example_sg_chunk_def float_eval array_eval)
  have h2: "sym_index 6 3 1 = Inr 2"
    by (simp add: float_eval)
  have h3: "\<bar>of_int (py_round (1 / 2)) - 1 / 2\<bar> = (1 / 2 :: rat)"
    by (simp add: float_eval)
  have h4: "(0::nat) < 6 \<and> int 6 < 2 ^ 63 \<and> (0::int) < 3 \<and> \<bar>1 :: int\<bar> < 2 ^ 64"
    by simp
  have h5: "(0::int) < 3 \<and> int 6 = 2 * 3 \<and> (2::int) < 2 ^ 53 \<and> \<bar>1 :: int\<bar> < 2 ^ 53 \<and>
    \<bar>1 * 2 :: int\<bar> < 2 ^ 53"
    by simp
  from symbolic_window_mapping [of example_roll example_norm_db 1 2 3
      example_pr_chunk example_sg_chunk 6 3 1 2 "1 / 2" 2] h1 h2 h3 h4 h5
  show ?thesis
    by blast
qed

text \<open>
  C2. Every chunk that \<^verbatim>\<open>extract_chunk\<close> returns for a piano roll of \<open>C\<close> rows has
  \<open>C + 1\<close> rows and \<open>w + 1\<close> columns, where \<open>w\<close> is the width of the slice
  \<^verbatim>\<open>start_pr:end_pr\<close>: \<open>end_pr - start_pr\<close> inside the roll, and cut at the number of
  columns of the roll when \<open>end_pr\<close> lies beyond it. The bounds are ordered,
  \<open>0 \<le> start_pr \<le> end_pr\<close>, for every window \<open>0 \<le> start \<le> stop\<close> of a recording
  with frames. The last column of the chunk is zero except for a one in the last row, and
  the last row is zero in every other column. This holds for every window, so for every
  chunk of a recording.
\<close>

theorem extract_chunk_terminal_marker:
  assumes "wf_array piano_roll"
    and "extract_chunk piano_roll norm_db start stop song_len = Inr (pr_chunk, sg_chunk)"
  shows "\<exists>start_pr end_pr w.
           sym_index (ncols piano_roll) song_len start = Inr start_pr \<and>
           sym_index (ncols piano_roll) song_len stop = Inr end_pr \<and>
           w = slice_bound (ncols piano_roll) end_pr - slice_bound (ncols piano_roll) start_pr \<and>
           (0 < song_len \<and> 0 \<le> start \<and> start \<le> stop \<longrightarrow> 0 \<le> start_pr \<and> start_pr \<le> end_pr) \<and>
           (0 \<le> start_pr \<and> start_pr \<le> end_pr
              \<longrightarrow> int w = min end_pr (int (ncols piano_roll))
                            - min start_pr (int (ncols piano_roll))) \<and>
           (0 \<le> start_pr \<and> start_pr \<le> end_pr \<and> end_pr \<le> int (ncols piano_roll)
              \<longrightarrow> int w = end_pr - start_pr) \<and>
           (0 \<le> start_pr \<and> start_pr \<le> int (ncols piano_roll) \<and> int (ncols piano_roll) < end_pr
              \<longrightarrow> int w = int (ncols piano_roll) - start_pr) \<and>
           nrows pr_chunk = nrows piano_roll + 1 \<and>
           ncols pr_chunk = w + 1 \<and>
           wf_array pr_chunk \<and>
           (\<forall>i<nrows piano_roll. rows pr_chunk ! i ! w = Fin 0) \<and>
           rows pr_chunk ! nrows piano_roll ! w = Fin 1 \<and>
           (\<forall>j<w. rows pr_chunk ! nrows piano_roll ! j = Fin 0)"
proof -
  from assms(2) obtain a b where
    a: "sym_index (ncols piano_roll) song_len start = Inr a" and
    b: "sym_index (ncols piano_roll) song_len stop = Inr b" and
    pr: "pr_chunk = append_col
           (append_row (slice_cols piano_roll a b)
              (replicate (ncols (slice_cols piano_roll a b)) (Fin 0)))
           (replicate (nrows (slice_cols piano_roll a b)) (Fin 0) @ [Fin 1])"
    by (auto simp: extract_chunk_eq nrows_def slice_cols_def split: sum.splits)
  define c where "c = slice_cols piano_roll a b"
  have wf: "wf_array c"
    unfolding c_def using assms(1) by (rule wf_slice_cols)
  have nc: "ncols c = slice_bound (ncols piano_roll) b - slice_bound (ncols piano_roll) a"
    by (simp add: c_def slice_cols_def)
  have nr: "nrows c = nrows piano_roll"
    by (simp add: c_def slice_cols_def nrows_def)
  have ord: "0 \<le> a \<and> a \<le> b" if "0 < song_len" "0 \<le> start" "start \<le> stop"
    using sym_index_mono [OF that a b] .
  note m = marked_chunk [OF wf, folded pr [folded c_def]]
  show ?thesis
    using a b m ord unfolding nr nc
    by (auto simp: slice_width_inside slice_width_truncated slice_width_min)
qed

theorem extract_chunk_terminal_marker_witness:
  "wf_array example_roll \<and>
   extract_chunk example_roll example_norm_db 1 2 3 =
     Inr (\<lparr>ncols = 3, rows = [map Fin [2, 3, 0], map Fin [12, 13, 0], map Fin [0, 0, 1]]\<rparr>,
          \<lparr>ncols = 1, rows = [[Fin (1 / 2)]]\<rparr>) \<and>
   sym_index (ncols example_roll) 3 1 = Inr 2 \<and>
   sym_index (ncols example_roll) 3 2 = Inr 4 \<and>
   nrows \<lparr>ncols = 3, rows = [map Fin [2, 3, 0], map Fin [12, 13, 0], map Fin [0, 0, 1]]\<rparr>
     = nrows example_roll + 1"
proof -
  have h1: "wf_array example_roll"
    by (simp add: example_roll_def wf_array_def)
  have h2: "extract_chunk example_roll example_norm_db 1 2 3 =
     Inr (\<lparr>ncols = 3, rows = [map Fin [2, 3, 0], map Fin [12, 13, 0], map Fin [0, 0, 1]]\<rparr>,
          \<lparr>ncols = 1, rows = [[Fin (1 / 2)]]\<rparr>)"
    by (simp add: extract_chunk_def example_roll_def example_norm_db_def float_eval array_eval)
  have h3: "sym_index (ncols example_roll) 3 1 = Inr 2" "sym_index (ncols example_roll) 3 2 = Inr 4"
    by (simp_all add: example_roll_def float_eval)
  from extract_chunk_terminal_marker [OF h1 h2] h1 h2 h3 show ?thesis
    by auto
qed

subsection \<open>The normaliser\<close>

lemma fle_refl: "x \<noteq> NaN \<Longrightarrow> fle x x"
  by (cases x) simp_all

lemma fle_trans: "fle x y \<Longrightarrow> fle y z \<Longrightarrow> fle x z"
  by (cases x; cases y; cases z) simp_all

lemma fle_total: "x \<noteq> NaN \<Longrightarrow> y \<noteq> NaN \<Longrightarrow> fle x y \<or> fle y x"
  by (cases x; cases y) auto

lemma fle_antisym: "fle x y \<Longrightarrow> fle y x \<Longrightarrow> x = y"
  by (cases x; cases y) simp_all

lemma foldl_fmin_NaN: "NaN \<in> set (x # xs) \<Longrightarrow> foldl fmin x xs = NaN"
proof (induction xs arbitrary: x)
  case Nil
  then show ?case by simp
next
  case (Cons y ys)
  have "NaN \<in> set (fmin x y # ys)"
    using Cons.prems by (auto simp: fmin_def)
  from Cons.IH [OF this] show ?case by simp
qed

lemma foldl_fmax_NaN: "NaN \<in> set (x # xs) \<Longrightarrow> foldl fmax x xs = NaN"
proof (induction xs arbitrary: x)
  case Nil
  then show ?case by simp
next
  case (Cons y ys)
  have "NaN \<in> set (fmax x y # ys)"
    using Cons.prems by (auto simp: fmax_def)
  from Cons.IH [OF this] show ?case by simp
qed

lemma foldl_fmin_least:
  "NaN \<notin> set (x # xs) \<Longrightarrow>
     foldl fmin x xs \<in> set (x # xs) \<and> (\<forall>y\<in>set (x # xs). fle (foldl fmin x xs) y)"
proof (induction xs arbitrary: x)
  case Nil
  then show ?case by (simp add: fle_refl)
next
  case (Cons z zs)
  have n: "x \<noteq> NaN" "z \<noteq> NaN" "NaN \<notin> set zs"
    using Cons.prems by auto
  have m: "fmin x z = x \<and> fle x z \<or> fmin x z = z \<and> fle z x"
    using n fle_total [of x z] by (auto simp: fmin_def)
  then have "NaN \<notin> set (fmin x z # zs)"
    using n by auto
  from Cons.IH [OF this]
  have in_set: "foldl fmin (fmin x z) zs \<in> set (fmin x z # zs)"
    and least: "\<forall>y\<in>set (fmin x z # zs). fle (foldl fmin (fmin x z) zs) y"
    by blast+
  from least have "fle (foldl fmin (fmin x z) zs) (fmin x z)" by simp
  with m have "fle (foldl fmin (fmin x z) zs) x \<and> fle (foldl fmin (fmin x z) zs) z"
    by (auto intro: fle_trans)
  with in_set least m show ?case by auto
qed

lemma foldl_fmax_greatest:
  "NaN \<notin> set (x # xs) \<Longrightarrow>
     foldl fmax x xs \<in> set (x # xs) \<and> (\<forall>y\<in>set (x # xs). fle y (foldl fmax x xs))"
proof (induction xs arbitrary: x)
  case Nil
  then show ?case by (simp add: fle_refl)
next
  case (Cons z zs)
  have n: "x \<noteq> NaN" "z \<noteq> NaN" "NaN \<notin> set zs"
    using Cons.prems by auto
  have m: "fmax x z = z \<and> fle x z \<or> fmax x z = x \<and> fle z x"
    using n fle_total [of x z] by (auto simp: fmax_def)
  then have "NaN \<notin> set (fmax x z # zs)"
    using n by auto
  from Cons.IH [OF this]
  have in_set: "foldl fmax (fmax x z) zs \<in> set (fmax x z # zs)"
    and greatest: "\<forall>y\<in>set (fmax x z # zs). fle y (foldl fmax (fmax x z) zs)"
    by blast+
  from greatest have "fle (fmax x z) (foldl fmax (fmax x z) zs)" by simp
  with m have "fle x (foldl fmax (fmax x z) zs) \<and> fle z (foldl fmax (fmax x z) zs)"
    by (auto intro: fle_trans)
  with in_set greatest m show ?case by auto
qed

lemma array_min_NaN:
  "NaN \<in> set (elements a) \<Longrightarrow> array_min a = NaN"
  using foldl_fmin_NaN by (auto simp: array_min_def split: list.splits)

lemma array_max_NaN:
  "NaN \<in> set (elements a) \<Longrightarrow> array_max a = NaN"
  using foldl_fmax_NaN by (auto simp: array_max_def split: list.splits)

lemma array_min_least:
  assumes "elements a \<noteq> []" and "NaN \<notin> set (elements a)"
  shows "array_min a \<in> set (elements a)" and "\<forall>y\<in>set (elements a). fle (array_min a) y"
proof -
  from assms(1) obtain x xs where e: "elements a = x # xs"
    by (cases "elements a") auto
  then have "NaN \<notin> set (x # xs)" using assms(2) by simp
  from foldl_fmin_least [OF this]
  show "array_min a \<in> set (elements a)" and "\<forall>y\<in>set (elements a). fle (array_min a) y"
    by (simp_all add: array_min_def e)
qed

lemma array_max_greatest:
  assumes "elements a \<noteq> []" and "NaN \<notin> set (elements a)"
  shows "array_max a \<in> set (elements a)" and "\<forall>y\<in>set (elements a). fle y (array_max a)"
proof -
  from assms(1) obtain x xs where e: "elements a = x # xs"
    by (cases "elements a") auto
  then have "NaN \<notin> set (x # xs)" using assms(2) by simp
  from foldl_fmax_greatest [OF this]
  show "array_max a \<in> set (elements a)" and "\<forall>y\<in>set (elements a). fle y (array_max a)"
    by (simp_all add: array_max_def e)
qed

lemma nth_elements:
  "i < nrows a \<Longrightarrow> j < length (rows a ! i) \<Longrightarrow> rows a ! i ! j \<in> set (elements a)"
  by (auto simp: elements_def nrows_def intro!: bexI [of _ "rows a ! i"])

lemma is_finite_iff: "is_finite x \<longleftrightarrow> (\<exists>q. x = Fin q)"
  by (cases x) simp_all

lemma finite_bounds:
  assumes ne: "elements a \<noteq> []" and fin: "\<forall>x\<in>set (elements a). is_finite x"
  shows "\<exists>mn mx. array_min a = Fin mn \<and> array_max a = Fin mx \<and>
           Fin mn \<in> set (elements a) \<and> Fin mx \<in> set (elements a) \<and>
           (\<forall>x\<in>set (elements a). \<exists>q. x = Fin q \<and> mn \<le> q \<and> q \<le> mx)"
proof -
  have nn: "NaN \<notin> set (elements a)"
    using fin by auto
  note lo = array_min_least [OF ne nn] and hi = array_max_greatest [OF ne nn]
  from lo(1) fin obtain mn where mn: "array_min a = Fin mn"
    unfolding is_finite_iff by blast
  from hi(1) fin obtain mx where mx: "array_max a = Fin mx"
    unfolding is_finite_iff by blast
  have "\<exists>q. x = Fin q \<and> mn \<le> q \<and> q \<le> mx" if "x \<in> set (elements a)" for x
  proof -
    from that fin obtain q where q: "x = Fin q"
      unfolding is_finite_iff by blast
    with lo(2) hi(2) that mn mx show ?thesis
      by fastforce
  qed
  with mn mx lo(1) hi(1) show ?thesis
    by auto
qed

lemma norm_sg_Inr: "elements a \<noteq> [] \<Longrightarrow> \<exists>b. norm_sg a = Inr b"
  by (simp add: norm_sg_def Let_def)

lemma ncols_norm_sg: "norm_sg a = Inr b \<Longrightarrow> ncols b = ncols a \<and> nrows b = nrows a"
  by (auto simp: norm_sg_def Let_def nrows_def split: if_splits)

lemma wf_norm_sg: "norm_sg a = Inr b \<Longrightarrow> wf_array a \<Longrightarrow> wf_array b"
  by (auto simp: norm_sg_def Let_def wf_array_def list_all_iff split: if_splits)

lemma norm_sg_entries:
  assumes "elements a \<noteq> []"
  shows "\<exists>out. norm_sg a = Inr out \<and> ncols out = ncols a \<and> nrows out = nrows a \<and>
           (\<forall>i<nrows a. length (rows out ! i) = length (rows a ! i)) \<and>
           (\<forall>i<nrows a. \<forall>j<length (rows a ! i).
              rows out ! i ! j
                = fdiv (fsub (rows a ! i ! j) (array_min a)) (fsub (array_max a) (array_min a)))"
  using assms by (simp add: norm_sg_def Let_def nrows_def)

lemma f32_finite: "\<bar>x\<bar> < 2 ^ 128 - 2 ^ 103 \<Longrightarrow> f32 x = Fin (fl32 x)"
  by (simp add: f32_def)

lemma f32_is_finite: "is_finite (f32 x) \<Longrightarrow> \<bar>x\<bar> < 2 ^ 128 - 2 ^ 103"
  by (simp add: f32_def split: if_splits)

text \<open>
  C4, as the code has it. For an array with an element, \<^verbatim>\<open>norm_sg\<close> returns an array of
  the same shape whose entry at a position is \<open>(in - min) / (max - min)\<close> in binary32
  arithmetic, with the least and the greatest element of the array. When moreover the
  elements are binary32 numbers, not all equal, and the difference \<open>max - min\<close> is
  finite, every entry of the result is a number between 0 and 1, it is 0 where the input is
  the minimum and 1 where the input is the maximum.
\<close>

theorem norm_sg_unit_range:
  "(elements spectrogram \<noteq> [] \<longrightarrow>
      (\<exists>out. norm_sg spectrogram = Inr out \<and>
         ncols out = ncols spectrogram \<and> nrows out = nrows spectrogram \<and>
         (\<forall>i<nrows spectrogram. length (rows out ! i) = length (rows spectrogram ! i)) \<and>
         (\<forall>i<nrows spectrogram. \<forall>j<length (rows spectrogram ! i).
            rows out ! i ! j =
              fdiv (fsub (rows spectrogram ! i ! j) (array_min spectrogram))
                   (fsub (array_max spectrogram) (array_min spectrogram))))) \<and>
   (elements spectrogram \<noteq> [] \<and>
    (\<forall>x\<in>set (elements spectrogram). \<exists>q. x = Fin q \<and> fl32 q = q) \<and>
    array_max spectrogram \<noteq> array_min spectrogram \<and>
    is_finite (fsub (array_max spectrogram) (array_min spectrogram)) \<longrightarrow>
      (\<exists>out mn mx. norm_sg spectrogram = Inr out \<and>
         array_min spectrogram = Fin mn \<and> array_max spectrogram = Fin mx \<and> mn < mx \<and>
         Fin mn \<in> set (elements spectrogram) \<and> Fin mx \<in> set (elements spectrogram) \<and>
         (\<forall>x\<in>set (elements spectrogram). \<exists>q. x = Fin q \<and> mn \<le> q \<and> q \<le> mx) \<and>
         (\<forall>i<nrows spectrogram. \<forall>j<length (rows spectrogram ! i).
            \<exists>q v. rows spectrogram ! i ! j = Fin q \<and> rows out ! i ! j = Fin v \<and>
                  v = fl32 (fl32 (q - mn) / fl32 (mx - mn)) \<and> 0 \<le> v \<and> v \<le> 1 \<and>
                  (q = mn \<longrightarrow> v = 0) \<and> (q = mx \<longrightarrow> v = 1))))"
proof (intro conjI impI; (elim conjE)?)
  assume "elements spectrogram \<noteq> []"
  then show "\<exists>out. norm_sg spectrogram = Inr out \<and>
         ncols out = ncols spectrogram \<and> nrows out = nrows spectrogram \<and>
         (\<forall>i<nrows spectrogram. length (rows out ! i) = length (rows spectrogram ! i)) \<and>
         (\<forall>i<nrows spectrogram. \<forall>j<length (rows spectrogram ! i).
            rows out ! i ! j =
              fdiv (fsub (rows spectrogram ! i ! j) (array_min spectrogram))
                   (fsub (array_max spectrogram) (array_min spectrogram)))"
    by (rule norm_sg_entries)
next
  assume ne: "elements spectrogram \<noteq> []"
    and rep: "\<forall>x\<in>set (elements spectrogram). \<exists>q. x = Fin q \<and> fl32 q = q"
    and nc: "array_max spectrogram \<noteq> array_min spectrogram"
    and nov: "is_finite (fsub (array_max spectrogram) (array_min spectrogram))"
  have fin: "\<forall>x\<in>set (elements spectrogram). is_finite x"
    using rep by (auto simp: is_finite_iff)
  from finite_bounds [OF ne fin] obtain mn mx where
    mn: "array_min spectrogram = Fin mn" and mx: "array_max spectrogram = Fin mx" and
    mem: "Fin mn \<in> set (elements spectrogram)" "Fin mx \<in> set (elements spectrogram)" and
    bd: "\<forall>x\<in>set (elements spectrogram). \<exists>q. x = Fin q \<and> mn \<le> q \<and> q \<le> mx"
    by blast
  from bd mem(1) have "mn \<le> mx" by fastforce
  with nc mn mx have lt: "mn < mx" by auto
  have rmn: "fl32 mn = mn" and rmx: "fl32 mx = mx"
    using rep mem by fastforce+
  define D where "D = fl32 (mx - mn)"
  have D: "0 < D"
    unfolding D_def using rmx rmn lt by (rule fl32_diff_pos)
  have thr: "\<bar>mx - mn\<bar> < 2 ^ 128 - 2 ^ 103"
    using nov f32_is_finite [of "mx - mn"] unfolding mn mx by simp
  then have den: "fsub (Fin mx) (Fin mn) = Fin D"
    by (simp add: D_def f32_finite)
  from norm_sg_entries [OF ne] obtain out where
    out: "norm_sg spectrogram = Inr out" and
    ent: "\<forall>i<nrows spectrogram. \<forall>j<length (rows spectrogram ! i).
            rows out ! i ! j =
              fdiv (fsub (rows spectrogram ! i ! j) (array_min spectrogram))
                   (fsub (array_max spectrogram) (array_min spectrogram))"
    by blast
  have "\<exists>q v. rows spectrogram ! i ! j = Fin q \<and> rows out ! i ! j = Fin v \<and>
                  v = fl32 (fl32 (q - mn) / fl32 (mx - mn)) \<and> 0 \<le> v \<and> v \<le> 1 \<and>
                  (q = mn \<longrightarrow> v = 0) \<and> (q = mx \<longrightarrow> v = 1)"
    if ij: "i < nrows spectrogram" "j < length (rows spectrogram ! i)" for i j
  proof -
    from nth_elements [OF ij] bd obtain q where
      q: "rows spectrogram ! i ! j = Fin q" "mn \<le> q" "q \<le> mx"
      by blast
    define n where "n = fl32 (q - mn)"
    have "\<bar>q - mn\<bar> < 2 ^ 128 - 2 ^ 103"
      using q(2,3) thr by simp
    then have num: "fsub (Fin q) (Fin mn) = Fin n"
      by (simp add: n_def f32_finite)
    have n0: "0 \<le> n"
      unfolding n_def using q(2) by (intro fl32_nonneg) simp
    have nD: "n \<le> D"
      unfolding n_def D_def using q(2,3) by (intro fl32_mono) simp_all
    have r0: "0 \<le> n / D" and r1: "n / D \<le> 1"
      using n0 nD D by (simp_all add: divide_le_eq_1)
    then have "\<bar>n / D\<bar> < 2 ^ 128 - 2 ^ 103"
      by simp
    then have quo: "fdiv (Fin n) (Fin D) = Fin (fl32 (n / D))"
      using D by (simp add: f32_finite)
    have v0: "0 \<le> fl32 (n / D)"
      using r0 by (rule fl32_nonneg)
    have v1: "fl32 (n / D) \<le> 1"
      using fl32_mono [OF r0 r1] by (simp add: fl32_one)
    have zero: "fl32 (n / D) = 0" if "q = mn"
      using that by (simp add: n_def fl32_zero)
    have one: "fl32 (n / D) = 1" if "q = mx"
      using that D by (simp add: n_def D_def [symmetric] fl32_one)
    have "rows out ! i ! j = Fin (fl32 (n / D))"
      using ent ij q(1) mn mx num den quo by simp
    with q(1) v0 v1 zero one show ?thesis
      unfolding n_def D_def by blast
  qed
  with out mn mx lt mem bd show "\<exists>out mn mx. norm_sg spectrogram = Inr out \<and>
         array_min spectrogram = Fin mn \<and> array_max spectrogram = Fin mx \<and> mn < mx \<and>
         Fin mn \<in> set (elements spectrogram) \<and> Fin mx \<in> set (elements spectrogram) \<and>
         (\<forall>x\<in>set (elements spectrogram). \<exists>q. x = Fin q \<and> mn \<le> q \<and> q \<le> mx) \<and>
         (\<forall>i<nrows spectrogram. \<forall>j<length (rows spectrogram ! i).
            \<exists>q v. rows spectrogram ! i ! j = Fin q \<and> rows out ! i ! j = Fin v \<and>
                  v = fl32 (fl32 (q - mn) / fl32 (mx - mn)) \<and> 0 \<le> v \<and> v \<le> 1 \<and>
                  (q = mn \<longrightarrow> v = 0) \<and> (q = mx \<longrightarrow> v = 1))"
    by blast
qed

theorem norm_sg_unit_range_witness:
  "(elements example_mel \<noteq> [] \<and>
    list_all (\<lambda>x. \<exists>q. x = Fin q \<and> fl32 q = q) (elements example_mel) \<and>
    array_max example_mel \<noteq> array_min example_mel \<and>
    is_finite (fsub (array_max example_mel) (array_min example_mel))) \<and>
   norm_sg example_mel = Inr example_norm_db \<and>
   array_min example_mel = Fin (- 80) \<and> array_max example_mel = Fin 0 \<and>
   (\<exists>out. norm_sg example_mel = Inr out \<and>
         ncols out = ncols example_mel \<and> nrows out = nrows example_mel \<and>
         (\<forall>i<nrows example_mel. length (rows out ! i) = length (rows example_mel ! i)) \<and>
         (\<forall>i<nrows example_mel. \<forall>j<length (rows example_mel ! i).
            rows out ! i ! j =
              fdiv (fsub (rows example_mel ! i ! j) (array_min example_mel))
                   (fsub (array_max example_mel) (array_min example_mel)))) \<and>
   (\<exists>out mn mx. norm_sg example_mel = Inr out \<and>
         array_min example_mel = Fin mn \<and> array_max example_mel = Fin mx \<and> mn < mx \<and>
         Fin mn \<in> set (elements example_mel) \<and> Fin mx \<in> set (elements example_mel) \<and>
         (\<forall>x\<in>set (elements example_mel). \<exists>q. x = Fin q \<and> mn \<le> q \<and> q \<le> mx) \<and>
         (\<forall>i<nrows example_mel. \<forall>j<length (rows example_mel ! i).
            \<exists>q v. rows example_mel ! i ! j = Fin q \<and> rows out ! i ! j = Fin v \<and>
                  v = fl32 (fl32 (q - mn) / fl32 (mx - mn)) \<and> 0 \<le> v \<and> v \<le> 1 \<and>
                  (q = mn \<longrightarrow> v = 0) \<and> (q = mx \<longrightarrow> v = 1)))"
proof -
  have r: "fl32 (- 80) = - 80" "fl32 (- 40) = - 40" "fl32 0 = 0"
    by (simp_all add: float_eval)
  have e: "norm_sg example_mel = Inr example_norm_db"
    "array_min example_mel = Fin (- 80)" "array_max example_mel = Fin 0"
    by (simp_all add: example_mel_def example_norm_db_def norm_sg_def elements_def array_max_def
        array_min_def fmax_def fmin_def float_eval)
  have h: "elements example_mel \<noteq> [] \<and>
    (\<forall>x\<in>set (elements example_mel). \<exists>q. x = Fin q \<and> fl32 q = q) \<and>
    array_max example_mel \<noteq> array_min example_mel \<and>
    is_finite (fsub (array_max example_mel) (array_min example_mel))"
    unfolding e by (simp add: example_mel_def elements_def r) (simp add: float_eval)
  then have l: "list_all (\<lambda>x. \<exists>q. x = Fin q \<and> fl32 q = q) (elements example_mel)"
    by (simp add: list_all_iff)
  from norm_sg_unit_range [of example_mel] h l e show ?thesis
    by blast
qed

text \<open>
  The array \<open>[-2^127, 0, 2^127]\<close> holds binary32 numbers and is not constant, but
  \<open>max - min = 2^128\<close> is beyond the largest binary32 number: the difference is
  infinite, the entry of the maximum is NaN and the middle entry is 0.
\<close>

theorem norm_sg_unit_range_counterexample:
  "norm_sg example_wide = Inr \<lparr>ncols = 3, rows = [[Fin 0, Fin 0, NaN]]\<rparr> \<and>
   array_min example_wide = Fin (- (2 ^ 127)) \<and>
   array_max example_wide = Fin (2 ^ 127) \<and>
   fl32 (- (2 ^ 127)) = - (2 ^ 127) \<and> fl32 0 = 0 \<and> fl32 (2 ^ 127) = 2 ^ 127 \<and>
   fsub (array_max example_wide) (array_min example_wide) = PInf"
  by (simp add: example_wide_def norm_sg_def elements_def array_max_def array_min_def fmax_def
      fmin_def float_eval)

text \<open>
  C8. When the greatest and the least element of an array are equal, \<^verbatim>\<open>norm_sg\<close> still
  divides: it returns an array of the same shape in which every entry is NaN, so no entry
  is a finite number and none is zero.
\<close>

theorem norm_sg_constant_nan:
  assumes "elements spectrogram \<noteq> []"
    and "array_max spectrogram = array_min spectrogram"
  shows "\<exists>out. norm_sg spectrogram = Inr out \<and>
           ncols out = ncols spectrogram \<and> nrows out = nrows spectrogram \<and>
           (\<forall>i<nrows spectrogram. length (rows out ! i) = length (rows spectrogram ! i)) \<and>
           (\<forall>i<nrows spectrogram. \<forall>j<length (rows spectrogram ! i).
              rows out ! i ! j = NaN \<and> \<not> is_finite (rows out ! i ! j) \<and>
              rows out ! i ! j \<noteq> Fin 0)"
proof -
  from norm_sg_entries [OF assms(1)] obtain out where
    out: "norm_sg spectrogram = Inr out" "ncols out = ncols spectrogram"
      "nrows out = nrows spectrogram"
      "\<forall>i<nrows spectrogram. length (rows out ! i) = length (rows spectrogram ! i)" and
    ent: "\<forall>i<nrows spectrogram. \<forall>j<length (rows spectrogram ! i).
            rows out ! i ! j =
              fdiv (fsub (rows spectrogram ! i ! j) (array_min spectrogram))
                   (fsub (array_max spectrogram) (array_min spectrogram))"
    by blast
  define c where "c = array_min spectrogram"
  have "fdiv (fsub x c) (fsub c c) = NaN" if "x \<in> set (elements spectrogram)" for x
  proof (cases "NaN \<in> set (elements spectrogram)")
    case True
    then have "c = NaN"
      unfolding c_def by (rule array_min_NaN)
    then show ?thesis
      by (cases x) simp_all
  next
    case False
    note lo = array_min_least [OF assms(1) False]
      and hi = array_max_greatest [OF assms(1) False]
    have "fle c x" "fle x c"
      using lo(2) hi(2) that assms(2) by (simp_all add: c_def)
    then have "x = c" by (rule fle_antisym [symmetric])
    then show ?thesis
      by (cases c) (simp_all add: f32_zero)
  qed
  then have "rows out ! i ! j = NaN"
    if "i < nrows spectrogram" "j < length (rows spectrogram ! i)" for i j
    using ent that nth_elements [OF that] assms(2) by (simp add: c_def)
  with out show ?thesis
    by auto
qed

theorem norm_sg_constant_nan_witness:
  "elements example_constant \<noteq> [] \<and>
   array_max example_constant
     = array_min example_constant \<and>
   norm_sg example_constant = Inr \<lparr>ncols = 2, rows = [[NaN, NaN]]\<rparr> \<and>
   (\<exists>out. norm_sg example_constant = Inr out \<and>
      (\<forall>i<nrows example_constant.
         \<forall>j<length (rows example_constant ! i).
           rows out ! i ! j = NaN \<and> \<not> is_finite (rows out ! i ! j) \<and> rows out ! i ! j \<noteq> Fin 0))"
proof -
  have h1: "elements example_constant \<noteq> []"
    by (simp add: example_constant_def elements_def)
  have h2: "array_max example_constant
     = array_min example_constant"
    by (simp add: example_constant_def elements_def array_max_def array_min_def fmax_def fmin_def)
  have e: "norm_sg example_constant = Inr \<lparr>ncols = 2, rows = [[NaN, NaN]]\<rparr>"
    by (simp add: example_constant_def norm_sg_def elements_def array_max_def array_min_def fmax_def fmin_def
        f32_zero)
  from norm_sg_constant_nan [OF h1 h2] h1 h2 e show ?thesis
    by blast
qed

subsection \<open>The range of the segment driver\<close>

lemma window_count_step:
  fixes L :: int
  assumes "0 < L" and "i < N"
  shows "nat ((N - i + L - 1) div L) = Suc (nat ((N - (i + L) + L - 1) div L))"
proof -
  have "(N - i + L - 1) div L = (N - i - 1) div L + 1"
    using assms(1) div_add_self2 [of L "N - i - 1"] by (simp add: algebra_simps)
  moreover have "0 \<le> (N - i - 1) div L"
    using assms by (simp add: pos_imp_zdiv_nonneg_iff)
  ultimately show ?thesis
    by (simp add: algebra_simps nat_add_distrib)
qed

lemma window_count_done:
  fixes L :: int
  assumes "0 < L" and "N \<le> i"
  shows "nat ((N - i + L - 1) div L) = 0"
proof -
  have "N - i + L - 1 < L" using assms by simp
  then have "(N - i + L - 1) div L \<le> (L - 1) div L"
    using assms(1) by (intro zdiv_mono1) simp_all
  moreover have "(L - 1) div L = 0"
    using assms(1) by (simp add: div_pos_pos_trivial)
  ultimately show ?thesis by simp
qed

lemma range_up_eq:
  "0 < L \<Longrightarrow> range_up i N L = map (\<lambda>k. i + int k * L) [0..<nat ((N - i + L - 1) div L)]"
proof (induction i N L rule: range_up.induct)
  case (1 i stop step)
  show ?case
  proof (cases "i < stop")
    case True
    have "range_up i stop step = i # range_up (i + step) stop step"
      using True "1.prems" by (subst range_up.simps) simp
    also have "range_up (i + step) stop step =
        map (\<lambda>k. i + step + int k * step) [0..<nat ((stop - (i + step) + step - 1) div step)]"
      using "1.IH" True "1.prems" by simp
    also have "i # \<dots> = map (\<lambda>k. i + int k * step) [0..<Suc (nat ((stop - (i + step) + step - 1) div step))]"
      by (simp add: upt_conv_Cons map_Suc_upt [symmetric] algebra_simps del: upt_Suc)
    finally show ?thesis
      using window_count_step [OF "1.prems" True] by simp
  next
    case False
    then have "range_up i stop step = []"
      by (subst range_up.simps) simp
    then show ?thesis
      using window_count_done [of step stop i] False "1.prems" by simp
  qed
qed

lemma ceiling_window_count:
  fixes L :: int
  assumes "0 < L"
  shows "\<lceil>real_of_int N / real_of_int L\<rceil> = (N + L - 1) div L"
proof -
  have "(N + L - 1) div L = (N - 1) div L + 1"
    using assms div_add_self2 [of L "N - 1"] by (simp add: algebra_simps)
  moreover have "- N div L = - ((N - 1) div L + 1)"
  proof (rule int_div_pos_eq)
    show "- N = L * - ((N - 1) div L + 1) + (L - 1 - (N - 1) mod L)"
      using div_mult_mod_eq [of "N - 1" L] by (simp add: algebra_simps)
    show "0 \<le> L - 1 - (N - 1) mod L"
      using pos_mod_bound [OF assms, of "N - 1"] by linarith
    show "L - 1 - (N - 1) mod L < L"
      using pos_mod_sign [OF assms, of "N - 1"] by linarith
  qed
  ultimately show ?thesis
    by (simp add: ceiling_divide_eq_div)
qed

lemma range_up_partition:
  "0 < L \<Longrightarrow> i \<le> N \<Longrightarrow>
     concat (map (\<lambda>m. [m..min (m + L) N - 1]) (range_up i N L)) = [i..N - 1]"
proof (induction i N L rule: range_up.induct)
  case (1 i stop step)
  show ?case
  proof (cases "i < stop")
    case True
    have r: "range_up i stop step = i # range_up (i + step) stop step"
      using True "1.prems" by (subst range_up.simps) simp
    show ?thesis
    proof (cases "i + step < stop")
      case le: True
      have "concat (map (\<lambda>m. [m..min (m + step) stop - 1]) (range_up (i + step) stop step))
              = [i + step..stop - 1]"
        using "1.IH" True "1.prems" le by simp
      moreover have "[i..stop - 1] = [i..i + step - 1] @ [i + step..stop - 1]"
        using le "1.prems" by (intro upto_split1) simp_all
      ultimately show ?thesis
        using le by (simp add: r min_def)
    next
      case gt: False
      then have "range_up (i + step) stop step = []"
        by (subst range_up.simps) simp
      then show ?thesis
        using gt by (simp add: r min_def)
    qed
  next
    case False
    then have "range_up i stop step = []"
      by (subst range_up.simps) simp
    then show ?thesis
      using False "1.prems" by simp
  qed
qed

lemma range_up_bounds: "m \<in> set (range_up 0 N L) \<Longrightarrow> 0 < L \<Longrightarrow> 0 \<le> m \<and> m < N"
proof -
  assume m: "m \<in> set (range_up 0 N L)" and L: "0 < L"
  show ?thesis
  proof (cases "0 \<le> N")
    case True
    from m have "m \<in> (\<lambda>k. int k * L) ` {0..<nat ((N + L - 1) div L)}"
      by (simp add: range_up_eq [OF L])
    then obtain k where "m = int k * L" "k \<in> {0..<nat ((N + L - 1) div L)}"
      by (rule imageE)
    then have "k < nat ((N + L - 1) div L)"
      by simp
    note k = \<open>m = int k * L\<close> this
    from k(2) have "int k < (N + L - 1) div L" "0 \<le> int k" by simp_all
    then have "int k + 1 \<le> (N + L - 1) div L" by simp
    then have "(int k + 1) * L \<le> (N + L - 1) div L * L"
      using L by (simp add: mult_right_mono)
    also have "\<dots> \<le> N + L - 1"
      using L by (metis add.commute add_0 div_mult_mod_eq le_add_same_cancel1 pos_mod_sign add.left_neutral)
    finally show ?thesis
      using \<open>m = int k * L\<close> L by (simp add: algebra_simps)
  next
    case False
    then have "range_up 0 N L = []" by (subst range_up.simps) simp
    with m show ?thesis by simp
  qed
qed

lemma py_range_pos:
  "0 < L \<Longrightarrow> py_range 0 N L = Inr (map (\<lambda>k. int k * L) [0..<nat \<lceil>real_of_int N / real_of_int L\<rceil>])"
  by (simp add: py_range_def range_up_eq ceiling_window_count)

lemma py_range_neg: "L < 0 \<Longrightarrow> 0 \<le> N \<Longrightarrow> py_range 0 N L = Inr []"
  by (simp add: py_range_def range_down.simps)

lemma py_range_driver:
  assumes "py_range 0 (int N) L = Inr ms"
  shows "distinct ms \<and> (\<forall>m\<in>set ms. 0 \<le> m \<and> m < int N)"
proof (cases "0 < L")
  case True
  then have ms: "ms = range_up 0 (int N) L"
    using assms by (simp add: py_range_def)
  have "inj_on (\<lambda>k. int k * L) A" for A
    using True by (auto simp: inj_on_def)
  then have "distinct ms"
    unfolding ms range_up_eq [OF True] by (simp add: distinct_map)
  moreover have "\<forall>m\<in>set ms. 0 \<le> m \<and> m < int N"
    unfolding ms using range_up_bounds [OF _ True] by blast
  ultimately show ?thesis ..
next
  case False
  then have "ms = []"
    using assms by (auto simp: py_range_def range_down.simps split: if_splits)
  then show ?thesis by simp
qed

subsection \<open>Names of the persisted files\<close>

lemma digit_char_cases:
  fixes d :: nat
  assumes "d < 10"
  obtains "d = 0" | "d = 1" | "d = 2" | "d = 3" | "d = 4" | "d = 5" | "d = 6" | "d = 7"
    | "d = 8" | "d = 9"
proof -
  from assms have "d = 0 \<or> d = 1 \<or> d = 2 \<or> d = 3 \<or> d = 4 \<or> d = 5 \<or> d = 6 \<or> d = 7
      \<or> d = 8 \<or> d = 9"
    by arith
  with that show thesis by blast
qed

lemma digit_char_not_dash: "d < 10 \<Longrightarrow> digit_char d \<noteq> CHR ''-''"
  by (erule digit_char_cases) (simp_all add: digit_char_def)

lemma digit_char_inj: "d < 10 \<Longrightarrow> e < 10 \<Longrightarrow> digit_char d = digit_char e \<Longrightarrow> d = e"
  by (erule digit_char_cases; erule digit_char_cases) (simp_all add: digit_char_def)

lemma str_nat_small: "n < 10 \<Longrightarrow> str_nat n = [digit_char n]"
  by (subst str_nat.simps) simp

lemma str_nat_large: "\<not> n < 10 \<Longrightarrow> str_nat n = str_nat (n div 10) @ [digit_char (n mod 10)]"
  by (subst str_nat.simps) simp

lemma str_nat_not_Nil: "str_nat n \<noteq> []"
  by (cases "n < 10") (simp_all add: str_nat_small str_nat_large)

lemma dash_notin_str_nat: "CHR ''-'' \<notin> set (str_nat n)"
proof (induction n rule: str_nat.induct)
  case (1 n)
  show ?case
  proof (cases "n < 10")
    case True
    then show ?thesis
      using digit_char_not_dash [of n] by (auto simp: str_nat_small)
  next
    case False
    then show ?thesis
      using "1.IH" digit_char_not_dash [of "n mod 10"] by (auto simp: str_nat_large)
  qed
qed

lemma str_nat_inj: "str_nat n = str_nat m \<Longrightarrow> n = m"
proof (induction n arbitrary: m rule: str_nat.induct)
  case (1 n)
  show ?case
  proof (cases "n < 10")
    case n: True
    show ?thesis
    proof (cases "m < 10")
      case True
      with n "1.prems" show ?thesis
        by (simp add: str_nat_small digit_char_inj)
    next
      case False
      with n "1.prems" str_nat_not_Nil [of "m div 10"] show ?thesis
        by (simp add: str_nat_small str_nat_large)
    qed
  next
    case n: False
    show ?thesis
    proof (cases "m < 10")
      case True
      with n "1.prems" str_nat_not_Nil [of "n div 10"] show ?thesis
        by (simp add: str_nat_small str_nat_large)
    next
      case False
      with n "1.prems" have "str_nat (n div 10) = str_nat (m div 10)"
        and "digit_char (n mod 10) = digit_char (m mod 10)"
        by (simp_all add: str_nat_large)
      then have "n div 10 = m div 10" and "n mod 10 = m mod 10"
        using "1.IH" n by (simp_all add: digit_char_inj)
      then show ?thesis
        by (metis div_mult_mod_eq)
    qed
  qed
qed

lemma prefix_before_dash:
  assumes "CHR ''-'' \<notin> set u" and "CHR ''-'' \<notin> set v"
    and "u @ CHR ''-'' # x = v @ CHR ''-'' # y"
  shows "u = v"
proof -
  have t: "takeWhile (\<lambda>c. c \<noteq> CHR ''-'') (w @ CHR ''-'' # z) = w" if "CHR ''-'' \<notin> set w"
    for w z :: string
    using that by (induction w) auto
  have "u = takeWhile (\<lambda>c. c \<noteq> CHR ''-'') (u @ CHR ''-'' # x)"
    using t [OF assms(1), of x] by simp
  also have "\<dots> = takeWhile (\<lambda>c. c \<noteq> CHR ''-'') (v @ CHR ''-'' # y)"
    by (simp only: assms(3))
  also have "\<dots> = v"
    using t [OF assms(2), of y] by simp
  finally show ?thesis .
qed

lemma artifact_name_inj_start:
  assumes "0 \<le> m" and "0 \<le> m'"
    and "artifact_name m s ident kind ext = artifact_name m' s' ident' kind' ext'"
  shows "m = m'"
proof -
  have "str_nat (nat m) = str_nat (nat m')"
    using assms by (auto simp: artifact_name_def str_int_def intro: prefix_before_dash [OF dash_notin_str_nat dash_notin_str_nat])
  then show ?thesis
    using assms(1,2) str_nat_inj by fastforce
qed

lemma artifact_name_kinds:
  "artifact_name m s ident ''spec'' ''npy'' \<noteq> artifact_name m s ident ''piano'' ''npy''"
  by (simp add: artifact_name_def)

lemma length_window_files:
  "length (concat (map (\<lambda>m. window_files save_path stem m (m + L) (c m)) ms)) = 2 * length ms"
  by (induction ms) (simp_all add: window_files_def)

lemma nth_window_files:
  assumes "k < length ms"
  shows "(fs @ concat (map (\<lambda>m. window_files save_path stem m (m + L) (c m)) ms))
           ! (length fs + 2 * k)
         = (joinpath save_path (artifact_name (ms ! k) (ms ! k + L) stem ''spec'' ''npy''),
            snd (c (ms ! k))) \<and>
         (fs @ concat (map (\<lambda>m. window_files save_path stem m (m + L) (c m)) ms))
           ! (length fs + 2 * k + 1)
         = (joinpath save_path (artifact_name (ms ! k) (ms ! k + L) stem ''piano'' ''npy''),
            fst (c (ms ! k)))"
  using assms
proof (induction ms arbitrary: k fs)
  case Nil
  then show ?case by simp
next
  case (Cons m ms)
  show ?case
  proof (cases k)
    case 0
    then show ?thesis
      by (simp add: window_files_def nth_append)
  next
    case (Suc j)
    then have j: "j < length ms" using Cons.prems by simp
    let ?fs = "fs @ window_files save_path stem m (m + L) (c m)"
    have l: "length ?fs + 2 * j = length fs + 2 * k"
      by (simp add: Suc window_files_def)
    have "fs @ concat (map (\<lambda>m. window_files save_path stem m (m + L) (c m)) (m # ms))
          = ?fs @ concat (map (\<lambda>m. window_files save_path stem m (m + L) (c m)) ms)"
      by simp
    then show ?thesis
      using Cons.IH [OF j, of ?fs] unfolding l by (simp add: Suc)
  qed
qed

lemma distinct_window_paths:
  assumes "distinct ms" and "\<forall>m\<in>set ms. 0 \<le> m"
  shows "distinct (map fst (concat (map (\<lambda>m. window_files save_path stem m (m + L) (c m)) ms)))"
  using assms
proof (induction ms)
  case Nil
  show ?case by simp
next
  case (Cons m ms)
  have "m' \<noteq> m" if "m' \<in> set ms" for m'
    using that Cons.prems(1) by auto
  moreover have "0 \<le> m" and "\<forall>m'\<in>set ms. 0 \<le> m'"
    using Cons.prems(2) by simp_all
  ultimately have
    "\<forall>m'\<in>set ms. \<forall>k k'. artifact_name m (m + L) stem k ''npy''
        \<noteq> artifact_name m' (m' + L) stem k' ''npy''"
    using artifact_name_inj_start by blast
  then show ?case
    using Cons by (auto simp: window_files_def joinpath_def artifact_name_kinds)
qed

subsection \<open>The loop of the segment driver\<close>

lemma create_loop_step:
  assumes "extract_chunk piano_roll norm_db m (m + chunk_len) song_len = Inr c"
    and "writable (joinpath save_path (artifact_name m (m + chunk_len) stem ''spec'' ''npy''))"
    and "writable (joinpath save_path (artifact_name m (m + chunk_len) stem ''piano'' ''npy''))"
  shows "create_loop writable piano_roll norm_db song_len chunk_len save_path stem (m # ms) fs =
         create_loop writable piano_roll norm_db song_len chunk_len save_path stem ms
           (fs @ window_files save_path stem m (m + chunk_len) c)"
  using assms by (cases c) (simp add: save_array_def artifact_name_def window_files_def)

lemma create_loop_None_Cons:
  assumes "create_loop writable piano_roll norm_db song_len chunk_len save_path stem (m # ms) fs
             = (fs', None)"
  shows "(\<exists>c. extract_chunk piano_roll norm_db m (m + chunk_len) song_len = Inr c) \<and>
         writable (joinpath save_path (artifact_name m (m + chunk_len) stem ''spec'' ''npy'')) \<and>
         writable (joinpath save_path (artifact_name m (m + chunk_len) stem ''piano'' ''npy''))"
  using assms
  by (auto simp: save_array_def artifact_name_def split: sum.splits if_splits prod.splits)

text \<open>The files of the windows \<open>ms\<close>, in the order of writing.\<close>

lemma create_loop_None_iff:
  "create_loop writable piano_roll norm_db song_len chunk_len save_path stem ms fs = (fs', None)
   \<longleftrightarrow>
   (\<forall>m\<in>set ms.
      (\<exists>c. extract_chunk piano_roll norm_db m (m + chunk_len) song_len = Inr c) \<and>
      writable (joinpath save_path (artifact_name m (m + chunk_len) stem ''spec'' ''npy'')) \<and>
      writable (joinpath save_path (artifact_name m (m + chunk_len) stem ''piano'' ''npy''))) \<and>
   fs' = fs @ concat (map (\<lambda>m. window_files save_path stem m (m + chunk_len)
                        (projr (extract_chunk piano_roll norm_db m (m + chunk_len) song_len))) ms)"
proof (induction ms arbitrary: fs)
  case Nil
  show ?case by auto
next
  case (Cons m ms)
  show ?case
  proof (cases "(\<exists>c. extract_chunk piano_roll norm_db m (m + chunk_len) song_len = Inr c) \<and>
      writable (joinpath save_path (artifact_name m (m + chunk_len) stem ''spec'' ''npy'')) \<and>
      writable (joinpath save_path (artifact_name m (m + chunk_len) stem ''piano'' ''npy''))")
    case True
    then obtain c where c: "extract_chunk piano_roll norm_db m (m + chunk_len) song_len = Inr c"
      by blast
    have "create_loop writable piano_roll norm_db song_len chunk_len save_path stem (m # ms) fs =
          create_loop writable piano_roll norm_db song_len chunk_len save_path stem ms
            (fs @ window_files save_path stem m (m + chunk_len) c)"
      using True by (intro create_loop_step [OF c]) simp_all
    then show ?thesis
      using True c by (simp add: Cons.IH del: create_loop.simps)
  next
    case False
    then show ?thesis
      using create_loop_None_Cons [of writable piano_roll norm_db song_len chunk_len save_path stem m ms fs fs']
      by auto
  qed
qed

lemma create_loop_append:
  "create_loop writable piano_roll norm_db song_len chunk_len save_path stem (ms1 @ ms2) fs =
     (case create_loop writable piano_roll norm_db song_len chunk_len save_path stem ms1 fs of
        (fs1, None) \<Rightarrow>
          create_loop writable piano_roll norm_db song_len chunk_len save_path stem ms2 fs1
      | (fs1, Some e) \<Rightarrow> (fs1, Some e))"
  by (induction ms1 arbitrary: fs) (auto split: sum.splits prod.splits option.splits)

lemma create_loop_refused:
  assumes "extract_chunk piano_roll norm_db m (m + chunk_len) song_len = Inr (pr_chunk, sg_chunk)"
    and "\<not> writable (joinpath save_path (artifact_name m (m + chunk_len) stem ''spec'' ''npy''))
         \<or> \<not> writable (joinpath save_path (artifact_name m (m + chunk_len) stem ''piano'' ''npy''))"
  shows "create_loop writable piano_roll norm_db song_len chunk_len save_path stem (m # ms) fs =
           (if writable (joinpath save_path (artifact_name m (m + chunk_len) stem ''spec'' ''npy''))
            then fs @ [(joinpath save_path (artifact_name m (m + chunk_len) stem ''spec'' ''npy''),
                        sg_chunk)]
            else fs,
            Some IOError)"
  using assms by (auto simp: save_array_def artifact_name_def)

lemma create_loop_written:
  "create_loop writable piano_roll norm_db song_len chunk_len save_path stem ms fs = (fs', err)
   \<Longrightarrow>
   \<exists>files. fs' = fs @ files \<and>
     (\<forall>f\<in>set files. \<exists>m\<in>set ms. \<exists>pr_chunk.
        extract_chunk piano_roll norm_db m (m + chunk_len) song_len
          = Inr (pr_chunk, slice_cols norm_db m (m + chunk_len)) \<and>
        (f = (joinpath save_path (artifact_name m (m + chunk_len) stem ''spec'' ''npy''),
              slice_cols norm_db m (m + chunk_len)) \<or>
         f = (joinpath save_path (artifact_name m (m + chunk_len) stem ''piano'' ''npy''),
              pr_chunk)))"
proof (induction ms arbitrary: fs)
  case Nil
  then show ?case by simp
next
  case (Cons m ms)
  let ?spec = "joinpath save_path (artifact_name m (m + chunk_len) stem ''spec'' ''npy'')"
  let ?piano = "joinpath save_path (artifact_name m (m + chunk_len) stem ''piano'' ''npy'')"
  show ?case
  proof (cases "extract_chunk piano_roll norm_db m (m + chunk_len) song_len")
    case (Inl e)
    with Cons.prems have "fs' = fs" by simp
    then show ?thesis by simp
  next
    case (Inr c)
    obtain pr sg where c: "c = (pr, sg)" by (cases c)
    have sg: "sg = slice_cols norm_db m (m + chunk_len)"
      using Inr c by (auto simp: extract_chunk_eq split: sum.splits)
    note e = Inr [unfolded c sg]
    show ?thesis
    proof (cases "writable ?spec")
      case False
      with Cons.prems e have "fs' = fs"
        by (simp add: save_array_def artifact_name_def)
      then show ?thesis by simp
    next
      case spec: True
      show ?thesis
      proof (cases "writable ?piano")
        case False
        with Cons.prems e spec
        have "fs' = fs @ [(?spec, slice_cols norm_db m (m + chunk_len))]"
          by (simp add: save_array_def artifact_name_def)
        with e show ?thesis by auto
      next
        case True
        have "create_loop writable piano_roll norm_db song_len chunk_len save_path stem ms
                (fs @ window_files save_path stem m (m + chunk_len)
                        (pr, slice_cols norm_db m (m + chunk_len))) = (fs', err)"
          using Cons.prems create_loop_step [OF e spec True] by simp
        from Cons.IH [OF this] obtain files where
          f: "fs' = (fs @ window_files save_path stem m (m + chunk_len)
                        (pr, slice_cols norm_db m (m + chunk_len))) @ files" and
          n: "\<forall>f\<in>set files. \<exists>m\<in>set ms. \<exists>pr_chunk.
                extract_chunk piano_roll norm_db m (m + chunk_len) song_len
                  = Inr (pr_chunk, slice_cols norm_db m (m + chunk_len)) \<and>
                (f = (joinpath save_path (artifact_name m (m + chunk_len) stem ''spec'' ''npy''),
                      slice_cols norm_db m (m + chunk_len)) \<or>
                 f = (joinpath save_path (artifact_name m (m + chunk_len) stem ''piano'' ''npy''),
                      pr_chunk))"
          by blast
        show ?thesis
        proof (intro exI conjI ballI)
          show "fs' = fs @ (window_files save_path stem m (m + chunk_len)
                        (pr, slice_cols norm_db m (m + chunk_len)) @ files)"
            using f by simp
        next
          fix g
          assume "g \<in> set (window_files save_path stem m (m + chunk_len)
                        (pr, slice_cols norm_db m (m + chunk_len)) @ files)"
          then consider "g = (?spec, slice_cols norm_db m (m + chunk_len))" | "g = (?piano, pr)"
            | "g \<in> set files"
            by (auto simp: window_files_def)
          then show "\<exists>m'\<in>set (m # ms). \<exists>pr_chunk.
                extract_chunk piano_roll norm_db m' (m' + chunk_len) song_len
                  = Inr (pr_chunk, slice_cols norm_db m' (m' + chunk_len)) \<and>
                (g = (joinpath save_path (artifact_name m' (m' + chunk_len) stem ''spec'' ''npy''),
                      slice_cols norm_db m' (m' + chunk_len)) \<or>
                 g = (joinpath save_path (artifact_name m' (m' + chunk_len) stem ''piano'' ''npy''),
                      pr_chunk))"
          proof cases
            case 1
            with e show ?thesis by auto
          next
            case 2
            with e show ?thesis by auto
          next
            case 3
            with n show ?thesis by auto
          qed
        qed
      qed
    qed
  qed
qed

lemma create_tensor_None_iff:
  "create_tensor writable piano_roll mel_spectrogram_db chunk_len save_path stem fs = (fs', None)
   \<longleftrightarrow>
   (\<exists>norm_db ms.
      norm_sg mel_spectrogram_db = Inr norm_db \<and>
      py_range 0 (int (ncols mel_spectrogram_db)) chunk_len = Inr ms \<and>
      create_loop writable piano_roll norm_db (int (ncols mel_spectrogram_db)) chunk_len
        save_path stem ms fs = (fs', None))"
  by (auto simp: create_tensor_def Let_def dest: ncols_norm_sg split: sum.splits)

text \<open>A spectrogram without an element stops \<^verbatim>\<open>create_tensor\<close> in the normaliser.\<close>

lemma create_tensor_empty:
  "elements mel_spectrogram_db = [] \<Longrightarrow>
     create_tensor writable piano_roll mel_spectrogram_db chunk_len save_path stem fs
       = (fs, Some RuntimeError)"
  by (simp add: create_tensor_def norm_sg_def)

lemma create_tensor_completes:
  assumes "elements mel_spectrogram_db \<noteq> []" and "0 < chunk_len" and "chunk_len < 2 ^ 63"
    and "int (ncols mel_spectrogram_db) < 2 ^ 63" and "int (ncols piano_roll) < 2 ^ 63"
    and "\<forall>p. writable p"
  shows "\<exists>fs'. create_tensor writable piano_roll mel_spectrogram_db chunk_len save_path stem fs
           = (fs', None)"
proof -
  let ?N = "int (ncols mel_spectrogram_db)"
  obtain norm_db where n: "norm_sg mel_spectrogram_db = Inr norm_db"
    using norm_sg_Inr [OF assms(1)] by blast
  have r: "py_range 0 ?N chunk_len = Inr (range_up 0 ?N chunk_len)"
    using assms(2) by (simp add: py_range_def)
  have "\<exists>c. extract_chunk piano_roll norm_db m (m + chunk_len) ?N = Inr c"
    if "m \<in> set (range_up 0 ?N chunk_len)" for m
  proof -
    from range_up_bounds [OF that assms(2)] have m: "0 \<le> m" "m < ?N" by simp_all
    then have "?N \<noteq> 0" by simp
    moreover have "\<bar>m\<bar> < 2 ^ 64" "\<bar>m + chunk_len\<bar> < 2 ^ 64"
      using m assms(2,3,4) by simp_all
    ultimately show ?thesis
      using assms(5) by (intro extract_chunk_ok)
  qed
  then show ?thesis
    unfolding create_tensor_None_iff create_loop_None_iff using n r assms(6) by blast
qed

lemma create_tensor_written:
  assumes "create_tensor writable piano_roll mel_spectrogram_db chunk_len save_path stem fs
             = (fs', err)"
  shows "\<exists>files. fs' = fs @ files \<and>
     (\<forall>f\<in>set files. \<exists>norm_db ms m pr_chunk.
        norm_sg mel_spectrogram_db = Inr norm_db \<and>
        py_range 0 (int (ncols mel_spectrogram_db)) chunk_len = Inr ms \<and> m \<in> set ms \<and>
        extract_chunk piano_roll norm_db m (m + chunk_len) (int (ncols mel_spectrogram_db))
          = Inr (pr_chunk, slice_cols norm_db m (m + chunk_len)) \<and>
        (f = (joinpath save_path (artifact_name m (m + chunk_len) stem ''spec'' ''npy''),
              slice_cols norm_db m (m + chunk_len)) \<or>
         f = (joinpath save_path (artifact_name m (m + chunk_len) stem ''piano'' ''npy''),
              pr_chunk)))"
proof (cases "norm_sg mel_spectrogram_db")
  case (Inl e)
  with assms have "fs' = fs" by (simp add: create_tensor_def)
  then show ?thesis by simp
next
  case (Inr norm_db)
  then have nc: "ncols norm_db = ncols mel_spectrogram_db"
    by (simp add: ncols_norm_sg)
  show ?thesis
  proof (cases "py_range 0 (int (ncols mel_spectrogram_db)) chunk_len")
    case (Inl e)
    with assms Inr nc have "fs' = fs" by (simp add: create_tensor_def)
    then show ?thesis by simp
  next
    case ms: (Inr ms)
    have "create_loop writable piano_roll norm_db (int (ncols mel_spectrogram_db)) chunk_len
            save_path stem ms fs = (fs', err)"
      using assms Inr ms nc by (simp add: create_tensor_def)
    from create_loop_written [OF this] obtain files where
      f: "fs' = fs @ files" and
      n: "\<forall>f\<in>set files. \<exists>m\<in>set ms. \<exists>pr_chunk.
        extract_chunk piano_roll norm_db m (m + chunk_len) (int (ncols mel_spectrogram_db))
          = Inr (pr_chunk, slice_cols norm_db m (m + chunk_len)) \<and>
        (f = (joinpath save_path (artifact_name m (m + chunk_len) stem ''spec'' ''npy''),
              slice_cols norm_db m (m + chunk_len)) \<or>
         f = (joinpath save_path (artifact_name m (m + chunk_len) stem ''piano'' ''npy''),
              pr_chunk))"
      by blast
    show ?thesis
    proof (intro exI [of _ files] conjI ballI)
      show "fs' = fs @ files" by (rule f)
    next
      fix g assume "g \<in> set files"
      with n obtain m pr_chunk where "m \<in> set ms"
        and "extract_chunk piano_roll norm_db m (m + chunk_len) (int (ncols mel_spectrogram_db))
          = Inr (pr_chunk, slice_cols norm_db m (m + chunk_len))"
        and "g = (joinpath save_path (artifact_name m (m + chunk_len) stem ''spec'' ''npy''),
              slice_cols norm_db m (m + chunk_len)) \<or>
         g = (joinpath save_path (artifact_name m (m + chunk_len) stem ''piano'' ''npy''),
              pr_chunk)"
        by blast
      with Inr ms show "\<exists>norm_db ms m pr_chunk.
        norm_sg mel_spectrogram_db = Inr norm_db \<and>
        py_range 0 (int (ncols mel_spectrogram_db)) chunk_len = Inr ms \<and> m \<in> set ms \<and>
        extract_chunk piano_roll norm_db m (m + chunk_len) (int (ncols mel_spectrogram_db))
          = Inr (pr_chunk, slice_cols norm_db m (m + chunk_len)) \<and>
        (g = (joinpath save_path (artifact_name m (m + chunk_len) stem ''spec'' ''npy''),
              slice_cols norm_db m (m + chunk_len)) \<or>
         g = (joinpath save_path (artifact_name m (m + chunk_len) stem ''piano'' ''npy''),
              pr_chunk))"
        by (intro exI [of _ norm_db] exI [of _ ms] exI [of _ m] exI [of _ pr_chunk]) simp
    qed
  qed
qed

lemma completed_run_files:
  assumes "create_tensor writable piano_roll mel_spectrogram_db chunk_len save_path stem fs
             = (fs', None)"
  shows "\<exists>norm_db ms.
           norm_sg mel_spectrogram_db = Inr norm_db \<and>
           py_range 0 (int (ncols mel_spectrogram_db)) chunk_len = Inr ms \<and>
           (\<forall>m\<in>set ms. \<exists>pr_chunk.
              extract_chunk piano_roll norm_db m (m + chunk_len)
                (int (ncols mel_spectrogram_db))
                = Inr (pr_chunk, slice_cols norm_db m (m + chunk_len))) \<and>
           fs' = fs @ concat (map (\<lambda>m.
                   [(joinpath save_path (artifact_name m (m + chunk_len) stem ''spec'' ''npy''),
                     slice_cols norm_db m (m + chunk_len)),
                    (joinpath save_path (artifact_name m (m + chunk_len) stem ''piano'' ''npy''),
                     fst (projr (extract_chunk piano_roll norm_db m (m + chunk_len)
                                   (int (ncols mel_spectrogram_db)))))]) ms) \<and>
           length fs' = length fs + 2 * length ms \<and>
           distinct (map fst (drop (length fs) fs'))"
proof -
  let ?N = "int (ncols mel_spectrogram_db)"
  from assms obtain norm_db ms where
    n: "norm_sg mel_spectrogram_db = Inr norm_db" and
    r: "py_range 0 ?N chunk_len = Inr ms" and
    ok: "\<forall>m\<in>set ms. \<exists>c. extract_chunk piano_roll norm_db m (m + chunk_len) ?N = Inr c" and
    fs': "fs' = fs @ concat (map (\<lambda>m. window_files save_path stem m (m + chunk_len)
                        (projr (extract_chunk piano_roll norm_db m (m + chunk_len) ?N))) ms)"
    unfolding create_tensor_None_iff create_loop_None_iff by blast
  have sg: "\<exists>pr_chunk. extract_chunk piano_roll norm_db m (m + chunk_len) ?N
              = Inr (pr_chunk, slice_cols norm_db m (m + chunk_len))"
    if "m \<in> set ms" for m
    using ok that by (auto simp: extract_chunk_eq split: sum.splits)
  have "window_files save_path stem m (m + chunk_len)
          (projr (extract_chunk piano_roll norm_db m (m + chunk_len) ?N)) =
        [(joinpath save_path (artifact_name m (m + chunk_len) stem ''spec'' ''npy''),
          slice_cols norm_db m (m + chunk_len)),
         (joinpath save_path (artifact_name m (m + chunk_len) stem ''piano'' ''npy''),
          fst (projr (extract_chunk piano_roll norm_db m (m + chunk_len) ?N)))]"
    if "m \<in> set ms" for m
    using sg [OF that] by (auto simp: window_files_def)
  then have files: "fs' = fs @ concat (map (\<lambda>m.
                   [(joinpath save_path (artifact_name m (m + chunk_len) stem ''spec'' ''npy''),
                     slice_cols norm_db m (m + chunk_len)),
                    (joinpath save_path (artifact_name m (m + chunk_len) stem ''piano'' ''npy''),
                     fst (projr (extract_chunk piano_roll norm_db m (m + chunk_len) ?N)))]) ms)"
    unfolding fs' by (simp cong: map_cong)
  have len: "length fs' = length fs + 2 * length ms"
    unfolding fs' by (simp only: length_append length_window_files)
  have "distinct (map fst (drop (length fs) fs'))"
    unfolding fs' using py_range_driver [OF r]
    by (simp add: distinct_window_paths del: map_concat)
  with n r sg files len show ?thesis
    by blast
qed

lemmas driver_eval =
  create_tensor_def norm_sg_def array_min_def array_max_def fmin_def fmax_def py_range_def
  range_up.simps range_down.simps extract_chunk_def save_array_def joinpath_def str_int_def
  str_nat.simps digit_char_def

lemma example_create_tensor:
  "create_tensor (\<lambda>p. True) example_roll example_mel 2 [''out''] ''song'' [] =
     (example_files, None)"
  by (simp add: example_files_def example_roll_def example_mel_def driver_eval float_eval
      array_eval)

lemma example_create_tensor_95:
  "create_tensor always_writable example_roll example_mel_95 100 [''out''] ''song'' []
     = (example_files_95, None)"
  by (simp add: example_files_95_def example_roll_def example_mel_95_def always_writable_def
      driver_eval float_eval array_eval)

subsection \<open>Windows and files of a recording\<close>

text \<open>
  C1. For an acoustic array of \<open>N\<close> frames and a positive chunk length \<open>L\<close>, the windows
  of \<^verbatim>\<open>create_tensor\<close> start at \<open>0, L, 2L, \<dots>\<close> below \<open>N\<close>: there are
  \<open>\<lceil>N / L\<rceil>\<close> of them, the next start would be \<open>N\<close> or more, and the ranges
  \<open>[kL, min ((k + 1) L) N)\<close>, one after the other, are \<open>[0, N)\<close>. When
  \<^verbatim>\<open>create_tensor\<close> completes, the files it has written are those of the windows
  \<open>(kL, kL + L)\<close>, in this order.
\<close>

theorem segment_driver_windows:
  fixes N :: nat and L :: int
  assumes "0 < L" and "ncols mel_spectrogram_db = N"
  shows "let n = nat \<lceil>real N / real_of_int L\<rceil> in
         py_range 0 (int N) L = Inr (map (\<lambda>k. int k * L) [0..<n]) \<and>
         (\<forall>k<n. int k * L < int N) \<and>
         int N \<le> int n * L \<and>
         concat (map (\<lambda>k. [int k * L..min (int k * L + L) (int N) - 1]) [0..<n])
           = [0..int N - 1] \<and>
         (create_tensor writable piano_roll mel_spectrogram_db L save_path stem fs = (fs', None)
            \<longrightarrow> (\<exists>norm_db. norm_sg mel_spectrogram_db = Inr norm_db \<and>
                   fs' = fs @ concat (map (\<lambda>k. window_files save_path stem (int k * L) (int k * L + L)
                                 (projr (extract_chunk piano_roll norm_db
                                           (int k * L) (int k * L + L) (int N)))) [0..<n])))"
proof -
  define n where "n = nat \<lceil>real N / real_of_int L\<rceil>"
  have r: "py_range 0 (int N) L = Inr (map (\<lambda>k. int k * L) [0..<n])"
    unfolding n_def using py_range_pos [OF assms(1), of "int N"] by simp
  have ru: "range_up 0 (int N) L = map (\<lambda>k. int k * L) [0..<n]"
    using r assms(1) by (simp add: py_range_def)
  have lt: "\<forall>k<n. int k * L < int N"
  proof (intro allI impI)
    fix k assume "k < n"
    then have "int k * L \<in> set (range_up 0 (int N) L)"
      unfolding ru by auto
    from range_up_bounds [OF this assms(1)] show "int k * L < int N" by simp
  qed
  have q: "\<lceil>real N / real_of_int L\<rceil> = (int N + L - 1) div L"
    using ceiling_window_count [OF assms(1), of "int N"] by simp
  have "0 \<le> (int N + L - 1) div L"
    using assms(1) by (simp add: pos_imp_zdiv_nonneg_iff)
  then have n: "int n = (int N + L - 1) div L"
    by (simp add: n_def q)
  have "(int N + L - 1) div L * L + (int N + L - 1) mod L = int N + L - 1"
    by (rule div_mult_mod_eq)
  moreover have "(int N + L - 1) mod L < L"
    using assms(1) by (rule pos_mod_bound)
  ultimately have ge: "int N \<le> int n * L"
    unfolding n by linarith
  have "concat (map (\<lambda>m. [m..min (m + L) (int N) - 1]) (range_up 0 (int N) L)) = [0..int N - 1]"
    using assms(1) by (intro range_up_partition) simp_all
  then have part: "concat (map (\<lambda>k. [int k * L..min (int k * L + L) (int N) - 1]) [0..<n])
           = [0..int N - 1]"
    unfolding ru by (simp add: comp_def)
  have files: "\<exists>norm_db. norm_sg mel_spectrogram_db = Inr norm_db \<and>
                   fs' = fs @ concat (map (\<lambda>k. window_files save_path stem (int k * L) (int k * L + L)
                                 (projr (extract_chunk piano_roll norm_db
                                           (int k * L) (int k * L + L) (int N)))) [0..<n])"
    if "create_tensor writable piano_roll mel_spectrogram_db L save_path stem fs = (fs', None)"
    using that r assms(2)
    by (auto simp: create_tensor_None_iff create_loop_None_iff comp_def)
  show ?thesis
    unfolding Let_def n_def [symmetric] using r lt ge part files by blast
qed

theorem segment_driver_windows_witness:
  "(0::int) < 2 \<and> ncols example_mel = 3 \<and>
   create_tensor (\<lambda>p. True) example_roll example_mel 2 [''out''] ''song'' []
     = (example_files, None) \<and>
   (let n = nat \<lceil>real 3 / real_of_int 2\<rceil> in
      py_range 0 (int 3) 2 = Inr (map (\<lambda>k. int k * 2) [0..<n]) \<and>
      (\<forall>k<n. int k * 2 < int 3) \<and>
      int 3 \<le> int n * 2 \<and>
      concat (map (\<lambda>k. [int k * 2..min (int k * 2 + 2) (int 3) - 1]) [0..<n]) = [0..int 3 - 1] \<and>
      (\<exists>norm_db. norm_sg example_mel = Inr norm_db \<and>
         example_files = [] @ concat (map (\<lambda>k. window_files [''out''] ''song'' (int k * 2) (int k * 2 + 2)
                                 (projr (extract_chunk example_roll norm_db
                                           (int k * 2) (int k * 2 + 2) (int 3)))) [0..<n])))"
proof -
  have h1: "(0::int) < 2" by simp
  have h2: "ncols example_mel = 3" by (simp add: example_mel_def)
  have h3: "create_tensor (\<lambda>p. True) example_roll example_mel 2 [''out''] ''song'' []
     = (example_files, None)"
    by (rule example_create_tensor)
  from segment_driver_windows [OF h1 h2, where writable = "\<lambda>p. True"
      and piano_roll = example_roll and save_path = "[''out'']" and stem = "''song''"
      and fs = "[]" and fs' = example_files] h1 h2 h3
  show ?thesis
    unfolding Let_def by blast
qed

text \<open>
  C9. Every file that \<^verbatim>\<open>create_tensor\<close> writes, whether it completes or not, is the
  acoustic slice of a window \<open>(m, m + L)\<close> of its range under the name
  \<^verbatim>\<open>{m}-{m+L}-{stem}-spec.npy\<close> or the symbolic chunk of such a window under the name
  \<^verbatim>\<open>{m}-{m+L}-{stem}-piano.npy\<close>, in the save directory. When it completes, it has
  written for each window, in the order of the range, the acoustic file and then the
  symbolic file: two files for each window, and no two of these files have the same path.
\<close>

theorem persisted_artifact_names:
  "(create_tensor writable piano_roll mel_spectrogram_db chunk_len save_path stem fs = (fs', err)
    \<longrightarrow>
    (\<exists>files. fs' = fs @ files \<and>
       (\<forall>f\<in>set files. \<exists>norm_db ms m pr_chunk.
          norm_sg mel_spectrogram_db = Inr norm_db \<and>
          py_range 0 (int (ncols mel_spectrogram_db)) chunk_len = Inr ms \<and> m \<in> set ms \<and>
          extract_chunk piano_roll norm_db m (m + chunk_len) (int (ncols mel_spectrogram_db))
            = Inr (pr_chunk, slice_cols norm_db m (m + chunk_len)) \<and>
          (f = (joinpath save_path (artifact_name m (m + chunk_len) stem ''spec'' ''npy''),
                slice_cols norm_db m (m + chunk_len)) \<or>
           f = (joinpath save_path (artifact_name m (m + chunk_len) stem ''piano'' ''npy''),
                pr_chunk))))) \<and>
   (create_tensor writable piano_roll mel_spectrogram_db chunk_len save_path stem fs = (fs', None)
    \<longrightarrow>
    (\<exists>norm_db ms.
       norm_sg mel_spectrogram_db = Inr norm_db \<and>
       py_range 0 (int (ncols mel_spectrogram_db)) chunk_len = Inr ms \<and>
       (\<forall>m\<in>set ms. \<exists>pr_chunk.
          extract_chunk piano_roll norm_db m (m + chunk_len)
            (int (ncols mel_spectrogram_db))
            = Inr (pr_chunk, slice_cols norm_db m (m + chunk_len))) \<and>
       fs' = fs @ concat (map (\<lambda>m.
               [(joinpath save_path (artifact_name m (m + chunk_len) stem ''spec'' ''npy''),
                 slice_cols norm_db m (m + chunk_len)),
                (joinpath save_path (artifact_name m (m + chunk_len) stem ''piano'' ''npy''),
                 fst (projr (extract_chunk piano_roll norm_db m (m + chunk_len)
                               (int (ncols mel_spectrogram_db)))))]) ms) \<and>
       length fs' = length fs + 2 * length ms \<and>
       distinct (map fst (drop (length fs) fs'))))"
  using create_tensor_written completed_run_files by (intro conjI impI)

theorem persisted_artifact_names_witness:
  "create_tensor always_writable example_roll example_mel 2 [''out''] ''song'' []
     = (example_files, None) \<and>
   (\<exists>files. example_files = [] @ files \<and>
       (\<forall>f\<in>set files. \<exists>norm_db ms m pr_chunk.
          norm_sg example_mel = Inr norm_db \<and>
          py_range 0 (int (ncols example_mel)) 2 = Inr ms \<and> m \<in> set ms \<and>
          extract_chunk example_roll norm_db m (m + 2) (int (ncols example_mel))
            = Inr (pr_chunk, slice_cols norm_db m (m + 2)) \<and>
          (f = (joinpath [''out''] (artifact_name m (m + 2) ''song'' ''spec'' ''npy''),
                slice_cols norm_db m (m + 2)) \<or>
           f = (joinpath [''out''] (artifact_name m (m + 2) ''song'' ''piano'' ''npy''),
                pr_chunk)))) \<and>
   (\<exists>norm_db ms.
      norm_sg example_mel = Inr norm_db \<and>
      py_range 0 (int (ncols example_mel)) 2 = Inr ms \<and>
      (\<forall>m\<in>set ms. \<exists>pr_chunk.
         extract_chunk example_roll norm_db m (m + 2) (int (ncols example_mel))
           = Inr (pr_chunk, slice_cols norm_db m (m + 2))) \<and>
      example_files = [] @ concat (map (\<lambda>m.
              [(joinpath [''out''] (artifact_name m (m + 2) ''song'' ''spec'' ''npy''),
                slice_cols norm_db m (m + 2)),
               (joinpath [''out''] (artifact_name m (m + 2) ''song'' ''piano'' ''npy''),
                fst (projr (extract_chunk example_roll norm_db m (m + 2)
                              (int (ncols example_mel)))))]) ms) \<and>
      length example_files = length ([] :: storage) + 2 * length ms \<and>
      distinct (map fst (drop (length ([] :: storage)) example_files))) \<and>
   map fst example_files =
     [[''out'', ''0-2-song-spec.npy''], [''out'', ''0-2-song-piano.npy''],
      [''out'', ''2-4-song-spec.npy''], [''out'', ''2-4-song-piano.npy'']]"
proof -
  have h: "create_tensor always_writable example_roll example_mel 2 [''out''] ''song'' []
     = (example_files, None)"
    by (simp add: example_files_def example_roll_def example_mel_def always_writable_def
        driver_eval float_eval array_eval)
  have names: "map fst example_files =
     [[''out'', ''0-2-song-spec.npy''], [''out'', ''0-2-song-piano.npy''],
      [''out'', ''2-4-song-spec.npy''], [''out'', ''2-4-song-piano.npy'']]"
    by (simp add: example_files_def)
  note t = persisted_artifact_names [of always_writable example_roll example_mel 2 "[''out'']"
      "''song''" "[]" example_files None]
  from t h have 1: "\<exists>files. example_files = [] @ files \<and>
       (\<forall>f\<in>set files. \<exists>norm_db ms m pr_chunk.
          norm_sg example_mel = Inr norm_db \<and>
          py_range 0 (int (ncols example_mel)) 2 = Inr ms \<and> m \<in> set ms \<and>
          extract_chunk example_roll norm_db m (m + 2) (int (ncols example_mel))
            = Inr (pr_chunk, slice_cols norm_db m (m + 2)) \<and>
          (f = (joinpath [''out''] (artifact_name m (m + 2) ''song'' ''spec'' ''npy''),
                slice_cols norm_db m (m + 2)) \<or>
           f = (joinpath [''out''] (artifact_name m (m + 2) ''song'' ''piano'' ''npy''),
                pr_chunk)))"
    by (rule conjunct1 [THEN mp])
  from t h have 2: "\<exists>norm_db ms.
      norm_sg example_mel = Inr norm_db \<and>
      py_range 0 (int (ncols example_mel)) 2 = Inr ms \<and>
      (\<forall>m\<in>set ms. \<exists>pr_chunk.
         extract_chunk example_roll norm_db m (m + 2) (int (ncols example_mel))
           = Inr (pr_chunk, slice_cols norm_db m (m + 2))) \<and>
      example_files = [] @ concat (map (\<lambda>m.
              [(joinpath [''out''] (artifact_name m (m + 2) ''song'' ''spec'' ''npy''),
                slice_cols norm_db m (m + 2)),
               (joinpath [''out''] (artifact_name m (m + 2) ''song'' ''piano'' ''npy''),
                fst (projr (extract_chunk example_roll norm_db m (m + 2)
                              (int (ncols example_mel)))))]) ms) \<and>
      length example_files = length ([] :: storage) + 2 * length ms \<and>
      distinct (map fst (drop (length ([] :: storage)) example_files))"
    by (rule conjunct2 [THEN mp])
  from h 1 2 names show ?thesis
    by (intro conjI)
qed

text \<open>
  C10. The names of the two files of a window hold its start \<open>kL\<close> and the stop
  \<open>kL + L\<close> as \<^verbatim>\<open>create_tensor\<close> passes it on, whatever the number of frames, while
  the acoustic slice of the file ends at the last frame: it has \<open>min (kL + L) N - kL\<close>
  columns. For 95 frames and a chunk length of 100 the two files are named
  \<^verbatim>\<open>0-100-{stem}-spec.npy\<close> and \<^verbatim>\<open>0-100-{stem}-piano.npy\<close>, and the acoustic slice has
  95 columns.
\<close>

theorem file_names_nominal_stop:
  assumes "create_tensor writable piano_roll mel_spectrogram_db L save_path stem fs = (fs', None)"
    and "0 < L"
  shows "let N = int (ncols mel_spectrogram_db);
             n = nat \<lceil>real (ncols mel_spectrogram_db) / real_of_int L\<rceil>
         in length fs' = length fs + 2 * n \<and>
            (\<forall>k<n.
               fst (fs' ! (length fs + 2 * k)) =
                 joinpath save_path
                   (str_int (int k * L) @ ''-'' @ str_int (int k * L + L) @ ''-'' @ stem
                      @ ''-spec.npy'') \<and>
               fst (fs' ! (length fs + 2 * k + 1)) =
                 joinpath save_path
                   (str_int (int k * L) @ ''-'' @ str_int (int k * L + L) @ ''-'' @ stem
                      @ ''-piano.npy'') \<and>
               int (ncols (snd (fs' ! (length fs + 2 * k)))) = min (int k * L + L) N - int k * L) \<and>
            (N = 95 \<and> L = 100 \<longrightarrow>
               map fst (drop (length fs) fs') =
                 [joinpath save_path (''0-100-'' @ stem @ ''-spec.npy''),
                  joinpath save_path (''0-100-'' @ stem @ ''-piano.npy'')] \<and>
               ncols (snd (fs' ! length fs)) = 95)"
proof -
  define N where "N = int (ncols mel_spectrogram_db)"
  define n where "n = nat \<lceil>real (ncols mel_spectrogram_db) / real_of_int L\<rceil>"
  define ms where "ms = map (\<lambda>k. int k * L) [0..<n]"
  have r: "py_range 0 N L = Inr ms"
    unfolding N_def n_def ms_def using py_range_pos [OF assms(2), of "int (ncols mel_spectrogram_db)"]
    by simp
  from assms(1) obtain norm_db where
    nd: "norm_sg mel_spectrogram_db = Inr norm_db" and
    ok: "\<forall>m\<in>set ms. \<exists>c. extract_chunk piano_roll norm_db m (m + L) N = Inr c" and
    fs': "fs' = fs @ concat (map (\<lambda>m. window_files save_path stem m (m + L)
                        (projr (extract_chunk piano_roll norm_db m (m + L) N))) ms)"
    unfolding create_tensor_None_iff create_loop_None_iff N_def [symmetric] using r by auto
  have len: "length fs' = length fs + 2 * n"
    unfolding fs' by (simp only: length_append length_window_files) (simp add: ms_def)
  have nc: "ncols norm_db = ncols mel_spectrogram_db"
    using ncols_norm_sg [OF nd] by simp
  have win: "fst (fs' ! (length fs + 2 * k)) =
                 joinpath save_path
                   (str_int (int k * L) @ ''-'' @ str_int (int k * L + L) @ ''-'' @ stem
                      @ ''-spec.npy'') \<and>
               fst (fs' ! (length fs + 2 * k + 1)) =
                 joinpath save_path
                   (str_int (int k * L) @ ''-'' @ str_int (int k * L + L) @ ''-'' @ stem
                      @ ''-piano.npy'') \<and>
               int (ncols (snd (fs' ! (length fs + 2 * k)))) = min (int k * L + L) N - int k * L"
    if k: "k < n" for k
  proof -
    have kl: "k < length ms" and mk: "ms ! k = int k * L"
      using k by (simp_all add: ms_def)
    have "int k * L \<in> set ms"
      using kl mk by (metis nth_mem)
    then have b: "0 \<le> int k * L" "int k * L < N"
      using py_range_driver [OF r [unfolded N_def]] by (simp_all add: N_def)
    obtain pr sg where e: "extract_chunk piano_roll norm_db (int k * L) (int k * L + L) N = Inr (pr, sg)"
      using ok \<open>int k * L \<in> set ms\<close> by fastforce
    then have sg: "sg = slice_cols norm_db (int k * L) (int k * L + L)"
      by (auto simp: extract_chunk_eq split: sum.splits)
    have "int (ncols sg) = min (int k * L + L) N - int k * L"
      unfolding sg
      using ncols_window_slice [of "int k * L" "ncols mel_spectrogram_db" L norm_db] b assms(2) nc
      by (simp add: N_def)
    then show ?thesis
      using nth_window_files [OF kl, of fs save_path stem L
          "\<lambda>m. projr (extract_chunk piano_roll norm_db m (m + L) N)"] e
      unfolding fs' mk by (simp add: artifact_name_def)
  qed
  have ex: "map fst (drop (length fs) fs') =
                 [joinpath save_path (''0-100-'' @ stem @ ''-spec.npy''),
                  joinpath save_path (''0-100-'' @ stem @ ''-piano.npy'')] \<and>
               ncols (snd (fs' ! length fs)) = 95"
    if "N = 95" "L = 100"
  proof -
    have n1: "n = 1"
      using that by (simp add: n_def N_def)
    then have "ms = [0]" by (simp add: ms_def)
    then have "map fst (drop (length fs) fs') =
                 [joinpath save_path (''0-100-'' @ stem @ ''-spec.npy''),
                  joinpath save_path (''0-100-'' @ stem @ ''-piano.npy'')]"
      unfolding fs' using that(2)
      by (simp add: window_files_def artifact_name_def str_int_def str_nat.simps digit_char_def)
    moreover have "int (ncols (snd (fs' ! (length fs + 2 * 0)))) = min (int 0 * L + L) N - int 0 * L"
      using win [of 0] n1 by simp
    ultimately show ?thesis
      using that by simp
  qed
  show ?thesis
    unfolding Let_def N_def [symmetric] n_def [symmetric] using len win ex by blast
qed

theorem file_names_nominal_stop_witness:
  "create_tensor always_writable example_roll example_mel_95 100 [''out''] ''song'' []
     = (example_files_95, None) \<and> (0::int) < 100 \<and>
   (let N = int (ncols example_mel_95);
        n = nat \<lceil>real (ncols example_mel_95) / real_of_int 100\<rceil>
    in length example_files_95 = length ([] :: storage) + 2 * n \<and>
       (\<forall>k<n.
          fst (example_files_95 ! (length ([] :: storage) + 2 * k)) =
            joinpath [''out'']
              (str_int (int k * 100) @ ''-'' @ str_int (int k * 100 + 100) @ ''-'' @ ''song''
                 @ ''-spec.npy'') \<and>
          fst (example_files_95 ! (length ([] :: storage) + 2 * k + 1)) =
            joinpath [''out'']
              (str_int (int k * 100) @ ''-'' @ str_int (int k * 100 + 100) @ ''-'' @ ''song''
                 @ ''-piano.npy'') \<and>
          int (ncols (snd (example_files_95 ! (length ([] :: storage) + 2 * k))))
            = min (int k * 100 + 100) N - int k * 100) \<and>
       (N = 95 \<and> (100::int) = 100 \<longrightarrow>
          map fst (drop (length ([] :: storage)) example_files_95) =
            [joinpath [''out''] (''0-100-'' @ ''song'' @ ''-spec.npy''),
             joinpath [''out''] (''0-100-'' @ ''song'' @ ''-piano.npy'')] \<and>
          ncols (snd (example_files_95 ! length ([] :: storage))) = 95)) \<and>
   int (ncols example_mel_95) = 95"
proof -
  have h1: "create_tensor always_writable example_roll example_mel_95 100 [''out''] ''song'' []
     = (example_files_95, None)"
    by (rule example_create_tensor_95)
  have h2: "(0::int) < 100" by simp
  have h3: "int (ncols example_mel_95) = 95" by (simp add: example_mel_95_def)
  from file_names_nominal_stop [OF h1 h2] h1 h2 h3 show ?thesis
    by blast
qed

text \<open>
  C6. \<^verbatim>\<open>extract_chunk\<close> raises nothing for a window of machine-sized bounds, wherever
  its stop lies. When \<open>stop\<close> lies beyond the acoustic array, the acoustic chunk is cut at
  the end of the array: it holds the columns from \<open>start\<close> to the last one. When
  \<open>end_pr\<close> lies beyond the piano roll, whether \<open>stop\<close> lies beyond the acoustic array
  or not, the symbolic chunk is cut at the end of the roll: it holds the columns from
  \<open>start_pr\<close> to the last one, before its marker column.
  For an acoustic array of 95 frames and a chunk length of 100, \<^verbatim>\<open>create_tensor\<close> has
  the single window that starts at 0: it completes, and the two files it writes hold the
  whole normalised array, 95 frames, and the symbolic chunk.
\<close>

theorem boundary_window_truncated:
  "(wf_array norm_db \<and> wf_array piano_roll \<and> song_len \<noteq> 0 \<and>
    int (ncols piano_roll) < 2 ^ 63 \<and> \<bar>start\<bar> < 2 ^ 64 \<and> \<bar>stop\<bar> < 2 ^ 64
    \<longrightarrow>
    (\<exists>pr_chunk sg_chunk start_pr end_pr.
       extract_chunk piano_roll norm_db start stop song_len = Inr (pr_chunk, sg_chunk) \<and>
       sym_index (ncols piano_roll) song_len start = Inr start_pr \<and>
       sym_index (ncols piano_roll) song_len stop = Inr end_pr \<and>
       (0 \<le> start \<and> int (ncols norm_db) < stop \<longrightarrow>
          ncols sg_chunk = ncols norm_db - nat start \<and>
          rows sg_chunk = map (drop (nat start)) (rows norm_db)) \<and>
       (0 \<le> start_pr \<and> int (ncols piano_roll) < end_pr \<longrightarrow>
          ncols pr_chunk = ncols piano_roll - nat start_pr + 1 \<and>
          (\<forall>i<nrows piano_roll.
             rows pr_chunk ! i = drop (nat start_pr) (rows piano_roll ! i) @ [Fin 0])) \<and>
       (0 < song_len \<and> 0 \<le> start \<longrightarrow> 0 \<le> start_pr))) \<and>
   (wf_array mel_spectrogram_db \<and> elements mel_spectrogram_db \<noteq> [] \<and>
    ncols mel_spectrogram_db = 95 \<and> int (ncols piano_roll) < 2 ^ 63 \<and> (\<forall>p. writable p)
    \<longrightarrow>
    (\<exists>norm_db pr_chunk.
       norm_sg mel_spectrogram_db = Inr norm_db \<and> ncols norm_db = 95 \<and>
       py_range 0 95 100 = Inr [0] \<and>
       extract_chunk piano_roll norm_db 0 100 95 = Inr (pr_chunk, norm_db) \<and>
       create_tensor writable piano_roll mel_spectrogram_db 100 save_path stem fs =
         (fs @ window_files save_path stem 0 100 (pr_chunk, norm_db), None)))"
proof (intro conjI impI; (elim conjE)?)
  assume wf: "wf_array norm_db" "wf_array piano_roll" and z: "song_len \<noteq> 0"
    and b: "int (ncols piano_roll) < 2 ^ 63"
    and s: "\<bar>start\<bar> < 2 ^ 64" "\<bar>stop\<bar> < 2 ^ 64"
  from sym_index_ok [OF z b] s obtain start_pr end_pr where
    a: "sym_index (ncols piano_roll) song_len start = Inr start_pr"
       "sym_index (ncols piano_roll) song_len stop = Inr end_pr"
    by blast
  then obtain pr_chunk sg_chunk where
    e: "extract_chunk piano_roll norm_db start stop song_len = Inr (pr_chunk, sg_chunk)"
    by (simp add: extract_chunk_eq)
  note r = rows_extract_chunk [OF e a]
  have sg: "ncols sg_chunk = ncols norm_db - nat start \<and>
          rows sg_chunk = map (drop (nat start)) (rows norm_db)"
    if "0 \<le> start" "int (ncols norm_db) < stop"
  proof -
    have "slice_cols norm_db start stop =
        \<lparr>ncols = ncols norm_db - nat start, rows = map (drop (nat start)) (rows norm_db)\<rparr>"
      using wf(1) that by (intro slice_cols_truncated) simp_all
    then show ?thesis
      unfolding r(1) by simp
  qed
  have pr: "ncols pr_chunk = ncols piano_roll - nat start_pr + 1 \<and>
          (\<forall>i<nrows piano_roll.
             rows pr_chunk ! i = drop (nat start_pr) (rows piano_roll ! i) @ [Fin 0])"
    if "0 \<le> start_pr" "int (ncols piano_roll) < end_pr"
  proof -
    have "slice_cols piano_roll start_pr end_pr =
        \<lparr>ncols = ncols piano_roll - nat start_pr, rows = map (drop (nat start_pr)) (rows piano_roll)\<rparr>"
      using wf(2) that by (intro slice_cols_truncated) simp_all
    then show ?thesis
      using r(2,3) by (simp add: nth_append nrows_def)
  qed
  have nn: "0 \<le> start_pr" if "0 < song_len" "0 \<le> start"
    using sym_index_mono [OF that order_refl a(1) a(1)] by simp
  show "(\<exists>pr_chunk sg_chunk start_pr end_pr.
       extract_chunk piano_roll norm_db start stop song_len = Inr (pr_chunk, sg_chunk) \<and>
       sym_index (ncols piano_roll) song_len start = Inr start_pr \<and>
       sym_index (ncols piano_roll) song_len stop = Inr end_pr \<and>
       (0 \<le> start \<and> int (ncols norm_db) < stop \<longrightarrow>
          ncols sg_chunk = ncols norm_db - nat start \<and>
          rows sg_chunk = map (drop (nat start)) (rows norm_db)) \<and>
       (0 \<le> start_pr \<and> int (ncols piano_roll) < end_pr \<longrightarrow>
          ncols pr_chunk = ncols piano_roll - nat start_pr + 1 \<and>
          (\<forall>i<nrows piano_roll.
             rows pr_chunk ! i = drop (nat start_pr) (rows piano_roll ! i) @ [Fin 0])) \<and>
       (0 < song_len \<and> 0 \<le> start \<longrightarrow> 0 \<le> start_pr))"
    using e a sg pr nn
    by (intro exI [of _ pr_chunk] exI [of _ sg_chunk] exI [of _ start_pr] exI [of _ end_pr]) simp
next
  assume wf: "wf_array mel_spectrogram_db" and ne: "elements mel_spectrogram_db \<noteq> []"
    and n95: "ncols mel_spectrogram_db = 95" and b: "int (ncols piano_roll) < 2 ^ 63"
    and w: "\<forall>p. writable p"
  obtain norm_db where n: "norm_sg mel_spectrogram_db = Inr norm_db"
    using norm_sg_Inr [OF ne] by blast
  have c: "ncols norm_db = 95"
    using ncols_norm_sg [OF n] n95 by simp
  have wfn: "wf_array norm_db"
    using wf_norm_sg [OF n wf] .
  have r: "py_range 0 95 100 = Inr [0]"
    by (simp add: py_range_def range_up.simps)
  obtain c0 where "extract_chunk piano_roll norm_db 0 100 95 = Inr c0"
    using extract_chunk_ok [of 95 piano_roll 0 100 norm_db] b by auto
  moreover have "slice_cols norm_db 0 100 = norm_db"
    using wfn c by (intro slice_cols_whole) simp_all
  ultimately obtain pr_chunk where
    e: "extract_chunk piano_roll norm_db 0 100 95 = Inr (pr_chunk, norm_db)"
    by (auto simp: extract_chunk_eq split: sum.splits)
  have "create_tensor writable piano_roll mel_spectrogram_db 100 save_path stem fs =
         (fs @ window_files save_path stem 0 100 (pr_chunk, norm_db), None)"
    unfolding create_tensor_None_iff create_loop_None_iff
    using n r e w n95 by simp
  with n c r e show "\<exists>norm_db pr_chunk.
       norm_sg mel_spectrogram_db = Inr norm_db \<and> ncols norm_db = 95 \<and>
       py_range 0 95 100 = Inr [0] \<and>
       extract_chunk piano_roll norm_db 0 100 95 = Inr (pr_chunk, norm_db) \<and>
       create_tensor writable piano_roll mel_spectrogram_db 100 save_path stem fs =
         (fs @ window_files save_path stem 0 100 (pr_chunk, norm_db), None)"
    by blast
qed

theorem boundary_window_truncated_witness:
  "(wf_array example_norm_db_10 \<and> wf_array example_roll \<and> (3::int) \<noteq> 0 \<and>
    int (ncols example_roll) < 2 ^ 63 \<and> \<bar>(2::int)\<bar> < 2 ^ 64 \<and> \<bar>(4::int)\<bar> < 2 ^ 64) \<and>
   (\<exists>pr_chunk sg_chunk start_pr end_pr.
       extract_chunk example_roll example_norm_db_10 2 4 3 = Inr (pr_chunk, sg_chunk) \<and>
       sym_index (ncols example_roll) 3 2 = Inr start_pr \<and>
       sym_index (ncols example_roll) 3 4 = Inr end_pr \<and>
       (0 \<le> (2::int) \<and> int (ncols example_norm_db_10) < 4 \<longrightarrow>
          ncols sg_chunk = ncols example_norm_db_10 - nat 2 \<and>
          rows sg_chunk = map (drop (nat 2)) (rows example_norm_db_10)) \<and>
       (0 \<le> start_pr \<and> int (ncols example_roll) < end_pr \<longrightarrow>
          ncols pr_chunk = ncols example_roll - nat start_pr + 1 \<and>
          (\<forall>i<nrows example_roll.
             rows pr_chunk ! i = drop (nat start_pr) (rows example_roll ! i) @ [Fin 0])) \<and>
       (0 < (3::int) \<and> 0 \<le> (2::int) \<longrightarrow> 0 \<le> start_pr)) \<and>
   extract_chunk example_roll example_norm_db_10 2 4 3 =
     Inr (\<lparr>ncols = 3, rows = [map Fin [4, 5, 0], map Fin [14, 15, 0], map Fin [0, 0, 1]]\<rparr>,
          \<lparr>ncols = 2, rows = [map Fin [1 / 4, 3 / 8]]\<rparr>) \<and>
   sym_index (ncols example_roll) 3 2 = Inr 4 \<and>
   sym_index (ncols example_roll) 3 4 = Inr 8 \<and>
   (wf_array example_norm_db \<and> wf_array example_roll \<and> (3::int) \<noteq> 0 \<and>
    int (ncols example_roll) < 2 ^ 63 \<and> \<bar>(2::int)\<bar> < 2 ^ 64 \<and> \<bar>(4::int)\<bar> < 2 ^ 64) \<and>
   (\<exists>pr_chunk sg_chunk start_pr end_pr.
       extract_chunk example_roll example_norm_db 2 4 3 = Inr (pr_chunk, sg_chunk) \<and>
       sym_index (ncols example_roll) 3 2 = Inr start_pr \<and>
       sym_index (ncols example_roll) 3 4 = Inr end_pr \<and>
       (0 \<le> (2::int) \<and> int (ncols example_norm_db) < 4 \<longrightarrow>
          ncols sg_chunk = ncols example_norm_db - nat 2 \<and>
          rows sg_chunk = map (drop (nat 2)) (rows example_norm_db)) \<and>
       (0 \<le> start_pr \<and> int (ncols example_roll) < end_pr \<longrightarrow>
          ncols pr_chunk = ncols example_roll - nat start_pr + 1 \<and>
          (\<forall>i<nrows example_roll.
             rows pr_chunk ! i = drop (nat start_pr) (rows example_roll ! i) @ [Fin 0])) \<and>
       (0 < (3::int) \<and> 0 \<le> (2::int) \<longrightarrow> 0 \<le> start_pr)) \<and>
   (wf_array example_mel_95 \<and> elements example_mel_95 \<noteq> [] \<and>
    ncols example_mel_95 = 95 \<and> int (ncols example_roll) < 2 ^ 63 \<and>
    (\<forall>p. always_writable p)) \<and>
   (\<exists>norm_db pr_chunk.
       norm_sg example_mel_95 = Inr norm_db \<and> ncols norm_db = 95 \<and>
       py_range 0 95 100 = Inr [0] \<and>
       extract_chunk example_roll norm_db 0 100 95 = Inr (pr_chunk, norm_db) \<and>
       create_tensor always_writable example_roll example_mel_95 100 [''out''] ''song'' [] =
         ([] @ window_files [''out''] ''song'' 0 100 (pr_chunk, norm_db), None))"
proof -
  have h1: "wf_array example_norm_db_10 \<and> wf_array example_roll \<and> (3::int) \<noteq> 0 \<and>
    int (ncols example_roll) < 2 ^ 63 \<and> \<bar>(2::int)\<bar> < 2 ^ 64 \<and> \<bar>(4::int)\<bar> < 2 ^ 64"
    by (simp add: example_norm_db_10_def example_roll_def wf_array_def)
  have h1': "wf_array example_norm_db \<and> wf_array example_roll \<and> (3::int) \<noteq> 0 \<and>
    int (ncols example_roll) < 2 ^ 63 \<and> \<bar>(2::int)\<bar> < 2 ^ 64 \<and> \<bar>(4::int)\<bar> < 2 ^ 64"
    by (simp add: example_norm_db_def example_roll_def wf_array_def)
  have h2: "wf_array example_mel_95 \<and> elements example_mel_95 \<noteq> [] \<and>
    ncols example_mel_95 = 95 \<and> int (ncols example_roll) < 2 ^ 63 \<and>
    (\<forall>p. always_writable p)"
    by (simp add: example_mel_95_def example_roll_def wf_array_def elements_def
        always_writable_def)
  have i: "sym_index (ncols example_roll) 3 2 = Inr 4" "sym_index (ncols example_roll) 3 4 = Inr 8"
    by (simp_all add: example_roll_def float_eval)
  have e: "extract_chunk example_roll example_norm_db_10 2 4 3 =
     Inr (\<lparr>ncols = 3, rows = [map Fin [4, 5, 0], map Fin [14, 15, 0], map Fin [0, 0, 1]]\<rparr>,
          \<lparr>ncols = 2, rows = [map Fin [1 / 4, 3 / 8]]\<rparr>)"
    by (simp add: extract_chunk_def example_roll_def example_norm_db_10_def float_eval array_eval)
  note t = boundary_window_truncated [of example_norm_db_10 example_roll 3 2 4 example_mel_95
      always_writable "[''out'']" "''song''" "[]"]
  note t' = boundary_window_truncated [of example_norm_db example_roll 3 2 4 example_mel_95
      always_writable "[''out'']" "''song''" "[]"]
  from t h1 have 1: "(\<exists>pr_chunk sg_chunk start_pr end_pr.
       extract_chunk example_roll example_norm_db_10 2 4 3 = Inr (pr_chunk, sg_chunk) \<and>
       sym_index (ncols example_roll) 3 2 = Inr start_pr \<and>
       sym_index (ncols example_roll) 3 4 = Inr end_pr \<and>
       (0 \<le> (2::int) \<and> int (ncols example_norm_db_10) < 4 \<longrightarrow>
          ncols sg_chunk = ncols example_norm_db_10 - nat 2 \<and>
          rows sg_chunk = map (drop (nat 2)) (rows example_norm_db_10)) \<and>
       (0 \<le> start_pr \<and> int (ncols example_roll) < end_pr \<longrightarrow>
          ncols pr_chunk = ncols example_roll - nat start_pr + 1 \<and>
          (\<forall>i<nrows example_roll.
             rows pr_chunk ! i = drop (nat start_pr) (rows example_roll ! i) @ [Fin 0])) \<and>
       (0 < (3::int) \<and> 0 \<le> (2::int) \<longrightarrow> 0 \<le> start_pr))"
    by (rule conjunct1 [THEN mp])
  from t' h1' have 2: "(\<exists>pr_chunk sg_chunk start_pr end_pr.
       extract_chunk example_roll example_norm_db 2 4 3 = Inr (pr_chunk, sg_chunk) \<and>
       sym_index (ncols example_roll) 3 2 = Inr start_pr \<and>
       sym_index (ncols example_roll) 3 4 = Inr end_pr \<and>
       (0 \<le> (2::int) \<and> int (ncols example_norm_db) < 4 \<longrightarrow>
          ncols sg_chunk = ncols example_norm_db - nat 2 \<and>
          rows sg_chunk = map (drop (nat 2)) (rows example_norm_db)) \<and>
       (0 \<le> start_pr \<and> int (ncols example_roll) < end_pr \<longrightarrow>
          ncols pr_chunk = ncols example_roll - nat start_pr + 1 \<and>
          (\<forall>i<nrows example_roll.
             rows pr_chunk ! i = drop (nat start_pr) (rows example_roll ! i) @ [Fin 0])) \<and>
       (0 < (3::int) \<and> 0 \<le> (2::int) \<longrightarrow> 0 \<le> start_pr))"
    by (rule conjunct1 [THEN mp])
  from t h2 have 3: "\<exists>norm_db pr_chunk.
       norm_sg example_mel_95 = Inr norm_db \<and> ncols norm_db = 95 \<and>
       py_range 0 95 100 = Inr [0] \<and>
       extract_chunk example_roll norm_db 0 100 95 = Inr (pr_chunk, norm_db) \<and>
       create_tensor always_writable example_roll example_mel_95 100 [''out''] ''song'' [] =
         ([] @ window_files [''out''] ''song'' 0 100 (pr_chunk, norm_db), None)"
    by (rule conjunct2 [THEN mp])
  from h1 1 e i h1' 2 h2 3 show ?thesis
    by (intro conjI) simp_all
qed

subsection \<open>Invalid input and failed writes\<close>

text \<open>
  C3, as the code has it. With \<^verbatim>\<open>song_len = 0\<close> the division of \<^verbatim>\<open>extract_chunk\<close>
  raises \<^verbatim>\<open>ZeroDivisionError\<close>. For an acoustic array that has an element,
  \<^verbatim>\<open>create_tensor\<close> with a chunk length of zero ends with the \<^verbatim>\<open>ValueError\<close> of
  \<^verbatim>\<open>range\<close> and writes nothing, and with a negative chunk length it has no window: it
  writes nothing and raises nothing.
\<close>

theorem invalid_input_not_checked:
  "extract_chunk piano_roll norm_db start stop 0 = Inl ZeroDivisionError \<and>
   (elements mel_spectrogram_db \<noteq> [] \<longrightarrow>
      create_tensor writable piano_roll mel_spectrogram_db 0 save_path stem fs
        = (fs, Some ValueError)) \<and>
   (elements mel_spectrogram_db \<noteq> [] \<and> chunk_len < 0 \<longrightarrow>
      create_tensor writable piano_roll mel_spectrogram_db chunk_len save_path stem fs
        = (fs, None))"
proof (intro conjI impI)
  show "extract_chunk piano_roll norm_db start stop 0 = Inl ZeroDivisionError"
    by (rule extract_chunk_zero)
next
  assume "elements mel_spectrogram_db \<noteq> []"
  then obtain b where "norm_sg mel_spectrogram_db = Inr b"
    using norm_sg_Inr by blast
  then show "create_tensor writable piano_roll mel_spectrogram_db 0 save_path stem fs
        = (fs, Some ValueError)"
    by (simp add: create_tensor_def py_range_def)
next
  assume "elements mel_spectrogram_db \<noteq> [] \<and> chunk_len < 0"
  then obtain b where "norm_sg mel_spectrogram_db = Inr b" and "chunk_len < 0"
    using norm_sg_Inr by blast
  then show "create_tensor writable piano_roll mel_spectrogram_db chunk_len save_path stem fs
        = (fs, None)"
    by (simp add: create_tensor_def py_range_neg)
qed

theorem invalid_input_not_checked_witness:
  "elements example_mel \<noteq> [] \<and> (- 2 :: int) < 0 \<and>
   extract_chunk example_roll example_norm_db 0 2 0 = Inl ZeroDivisionError \<and>
   create_tensor always_writable example_roll example_mel 0 [''out''] ''song'' []
     = ([], Some ValueError) \<and>
   create_tensor always_writable example_roll example_mel (- 2) [''out''] ''song'' []
     = ([], None)"
proof -
  have h: "elements example_mel \<noteq> []"
    by (simp add: example_mel_def elements_def)
  from invalid_input_not_checked [of example_roll example_norm_db 0 2 example_mel
      always_writable "[''out'']" "''song''" "[]" "- 2"] h
  show ?thesis by simp
qed

theorem invalid_input_counterexample:
  "extract_chunk example_roll example_norm_db 0 2 0 = Inl ZeroDivisionError \<and>
   extract_chunk example_roll example_norm_db 0 2 0 \<noteq> Inl InvalidInputError \<and>
   create_tensor always_writable example_roll example_mel 0 [''out''] ''song'' []
     = ([], Some ValueError) \<and>
   create_tensor always_writable example_roll example_mel 0 [''out''] ''song'' []
     \<noteq> ([], Some InvalidInputError) \<and>
   create_tensor always_writable example_roll example_mel (- 2) [''out''] ''song'' []
     = ([], None)"
  by (simp add: example_roll_def example_mel_def example_norm_db_def always_writable_def
      driver_eval float_eval array_eval)

text \<open>
  C7, as the code has it. The loop of \<^verbatim>\<open>create_tensor\<close> catches nothing: when a write of
  the window \<open>m\<close> fails, \<^verbatim>\<open>create_tensor\<close> ends there with the \<^verbatim>\<open>IOError\<close>. The files
  of the windows before \<open>m\<close> stay, with the acoustic file of \<open>m\<close> when it is the symbolic
  one that failed, and nothing is written for the windows after \<open>m\<close>.
\<close>

theorem io_error_ends_loop:
  assumes "norm_sg mel_spectrogram_db = Inr norm_db"
    and "py_range 0 (int (ncols mel_spectrogram_db)) chunk_len = Inr (ms1 @ m # ms2)"
    and "create_loop writable piano_roll norm_db (int (ncols mel_spectrogram_db)) chunk_len
           save_path stem ms1 fs = (fs1, None)"
    and "extract_chunk piano_roll norm_db m (m + chunk_len) (int (ncols mel_spectrogram_db))
           = Inr (pr_chunk, sg_chunk)"
    and "\<not> writable (joinpath save_path (artifact_name m (m + chunk_len) stem ''spec'' ''npy''))
         \<or> \<not> writable (joinpath save_path (artifact_name m (m + chunk_len) stem ''piano'' ''npy''))"
  shows "create_tensor writable piano_roll mel_spectrogram_db chunk_len save_path stem fs =
           (if writable (joinpath save_path (artifact_name m (m + chunk_len) stem ''spec'' ''npy''))
            then fs1 @ [(joinpath save_path (artifact_name m (m + chunk_len) stem ''spec'' ''npy''),
                         sg_chunk)]
            else fs1,
            Some IOError)"
proof -
  have n: "ncols norm_db = ncols mel_spectrogram_db"
    using assms(1) by (simp add: ncols_norm_sg)
  have "create_tensor writable piano_roll mel_spectrogram_db chunk_len save_path stem fs =
        create_loop writable piano_roll norm_db (int (ncols mel_spectrogram_db)) chunk_len
          save_path stem (ms1 @ m # ms2) fs"
    using assms(1,2) n by (simp add: create_tensor_def)
  also have "\<dots> = create_loop writable piano_roll norm_db (int (ncols mel_spectrogram_db))
          chunk_len save_path stem (m # ms2) fs1"
    using assms(3) by (simp add: create_loop_append del: create_loop.simps)
  finally show ?thesis
    using create_loop_refused [OF assms(4,5)] by simp
qed

theorem io_error_ends_loop_witness:
  "norm_sg example_mel = Inr example_norm_db \<and>
   py_range 0 (int (ncols example_mel)) 2 = Inr ([] @ 0 # [2]) \<and>
   create_loop first_spec_refused example_roll example_norm_db (int (ncols example_mel)) 2
     [''out''] ''song'' [] [] = ([], None) \<and>
   extract_chunk example_roll example_norm_db 0 (0 + 2) (int (ncols example_mel))
     = Inr (snd (example_files ! 1), snd (example_files ! 0)) \<and>
   \<not> first_spec_refused (joinpath [''out''] (artifact_name 0 (0 + 2) ''song'' ''spec'' ''npy'')) \<and>
   create_tensor first_spec_refused example_roll example_mel 2 [''out''] ''song'' []
     = ([], Some IOError)"
proof -
  have h1: "norm_sg example_mel = Inr example_norm_db"
    by (simp add: example_mel_def example_norm_db_def driver_eval float_eval array_eval)
  have h2: "py_range 0 (int (ncols example_mel)) 2 = Inr ([] @ 0 # [2])"
    by (simp add: example_mel_def driver_eval)
  have h3: "create_loop first_spec_refused example_roll example_norm_db (int (ncols example_mel)) 2
     [''out''] ''song'' [] [] = ([], None)"
    by simp
  have h4: "extract_chunk example_roll example_norm_db 0 (0 + 2) (int (ncols example_mel))
     = Inr (snd (example_files ! 1), snd (example_files ! 0))"
    by (simp add: example_files_def example_roll_def example_mel_def example_norm_db_def
        driver_eval float_eval array_eval)
  have h5: "\<not> first_spec_refused (joinpath [''out''] (artifact_name 0 (0 + 2) ''song'' ''spec'' ''npy''))"
    by (simp add: first_spec_refused_def artifact_name_def driver_eval)
  from io_error_ends_loop [OF h1 h2 h3 h4 disjI1 [OF h5]] h1 h2 h3 h4 h5
  show ?thesis by simp
qed

theorem io_error_counterexample:
  "create_tensor first_spec_refused example_roll example_mel 2 [''out''] ''song'' []
     = ([], Some IOError) \<and>
   first_spec_refused [''out'', ''2-4-song-spec.npy''] \<and>
   first_spec_refused [''out'', ''2-4-song-piano.npy''] \<and>
   create_tensor always_writable example_roll example_mel 2 [''out''] ''song'' []
     = (example_files, None) \<and>
   fst (example_files ! 2) = [''out'', ''2-4-song-spec.npy''] \<and>
   fst (example_files ! 3) = [''out'', ''2-4-song-piano.npy'']"
  by (simp add: example_files_def example_roll_def example_mel_def first_spec_refused_def
      always_writable_def driver_eval float_eval array_eval)

end
